theory Spec2Isabelle
  imports Complex_Main "HOL-Library.Multiset"
begin

section \<open>Chrysalis Chess: the rules engine of \<^verbatim>\<open>src/App.tsx\<close>\<close>

text \<open>
  A shallow embedding of the non-presentational part of \<^verbatim>\<open>src/App.tsx\<close>: the state
  model, the two move generators, the transformation sweep, \<^verbatim>\<open>performMove\<close>, promotion
  resolution, win detection and \<^verbatim>\<open>generateMoves\<close>.

  Conventions.
  \<^item> JavaScript numbers are modelled as \<open>int\<close>: every number of the engine is a file, a
    rank, a move counter or a piece count, far below \<open>2^53\<close>.
  \<^item> \<^verbatim>\<open>null\<close> and \<^verbatim>\<open>undefined\<close> of an optional field are \<open>None\<close>; the occupant
    \<^verbatim>\<open>null\<close> is \<open>Empty\<close>.  The optional flag \<^verbatim>\<open>mustReturn\<close> is only ever tested for
    truthiness, so absent and \<^verbatim>\<open>false\<close> are both \<open>False\<close>.
  \<^item> \<^verbatim>\<open>deepClone\<close> (a JSON round trip) is the identity on such values; the model passes
    states by value, and a reference to a square of the cloned board is its index.
  \<^item> \<^verbatim>\<open>board.find(...)!\<close> yields \<^verbatim>\<open>undefined\<close> when no square matches, and reading or
    writing a property of it throws a \<^verbatim>\<open>TypeError\<close>. Every function that can reach such
    an access returns \<open>error + 'a\<close>, with \<open>Inl TypeError\<close> for the throw.
\<close>

subsection \<open>Data model\<close>

datatype Color = White | Black

datatype PieceType = K | Q | R | B | N | P

text \<open>\<open>Piece color type bornAtTurn mustReturn returnByTurn\<close>.\<close>

datatype Occupant =
    Empty
  | Metamorph Color
  | Piece Color PieceType int bool "int option"

type_synonym SquareId = string

record Square =
  id_sq :: SquareId
  file_sq :: int
  rank :: int
  blueSymbol :: "PieceType option"
  occupant :: Occupant

type_synonym ChrysalisStock = "PieceType \<Rightarrow> int"

datatype AiMode = Human | Cpu

datatype AiLevel = Easy | Medium | Hard

record AiConfig =
  mode :: AiMode
  cpuPlays :: Color
  level :: AiLevel

record GameState =
  board :: "Square list"
  turn :: Color
  moveNumber :: int
  stock :: "Color \<Rightarrow> ChrysalisStock"
  quietus :: "Color \<Rightarrow> ChrysalisStock"
  kingOnBoard :: "Color \<Rightarrow> bool"
  kingProtectedUntil :: "Color \<Rightarrow> int option"
  selected :: "SquareId option"
  promotion :: "(SquareId \<times> Color) option"
  message :: "string option"
  winner :: "Color option"
  winReason :: "string option"
  ai :: AiConfig
  lastMove :: "(SquareId \<times> SquareId \<times> Color) option"

datatype error = TypeError

type_synonym Move = "int \<times> int"

text \<open>Sequencing of computations that may throw.\<close>

definition bindE :: "error + 'a \<Rightarrow> ('a \<Rightarrow> error + 'b) \<Rightarrow> error + 'b" where
  "bindE m f = (case m of Inl e \<Rightarrow> Inl e | Inr x \<Rightarrow> f x)"

text \<open>The inline expression \<^verbatim>\<open>c === "white" ? "black" : "white"\<close>.\<close>

definition otherColor :: "Color \<Rightarrow> Color" where
  "otherColor c = (if c = White then Black else White)"

fun colorOf :: "Occupant \<Rightarrow> Color option" where
  "colorOf Empty = None"
| "colorOf (Metamorph c) = Some c"
| "colorOf (Piece c t b mr rb) = Some c"

fun isPiece :: "Occupant \<Rightarrow> bool" where
  "isPiece (Piece c t b mr rb) = True"
| "isPiece _ = False"

text \<open>\<^verbatim>\<open>o && o.kind === "piece" && o.color !== color\<close>\<close>

fun enemyPiece :: "Color \<Rightarrow> Occupant \<Rightarrow> bool" where
  "enemyPiece color (Piece c t b mr rb) = (c \<noteq> color)"
| "enemyPiece color _ = False"

definition FILES :: "char list" where
  "FILES = ''abcdefgh''"

text \<open>
  Template-literal rendering of a number, for \<^verbatim>\<open>idFrom\<close>. Ranks are 1..8 wherever the
  engine calls it; the general decimal rendering is written out all the same.
\<close>

definition digitChar :: "nat \<Rightarrow> char" where
  "digitChar d = ''0123456789'' ! d"

function showNat :: "nat \<Rightarrow> string" where
  "showNat n = (if n < 10 then [digitChar n] else showNat (n div 10) @ [digitChar (n mod 10)])"
  by pat_completeness auto
termination
  by (relation "measure id") auto

definition showInt :: "int \<Rightarrow> string" where
  "showInt i = (if i < 0 then CHR ''-'' # showNat (nat (- i)) else showNat (nat i))"

definition idFrom :: "int \<Rightarrow> int \<Rightarrow> SquareId" where
  "idFrom f r = (if 0 \<le> f \<and> f < 8 then [FILES ! nat f] else ''undefined'') @ showInt r"

definition emptyStock :: ChrysalisStock where
  "emptyStock = (\<lambda>t. case t of K \<Rightarrow> 1 | Q \<Rightarrow> 1 | R \<Rightarrow> 2 | B \<Rightarrow> 2 | N \<Rightarrow> 2 | P \<Rightarrow> 8)"

definition zeroStock :: ChrysalisStock where
  "zeroStock = (\<lambda>t. 0)"

definition INITIAL_COUNTS :: ChrysalisStock where
  "INITIAL_COUNTS = (\<lambda>t. case t of K \<Rightarrow> 1 | Q \<Rightarrow> 1 | R \<Rightarrow> 2 | B \<Rightarrow> 2 | N \<Rightarrow> 2 | P \<Rightarrow> 8)"

definition inBounds :: "int \<Rightarrow> int \<Rightarrow> bool" where
  "inBounds f r = (f \<ge> 0 \<and> f < 8 \<and> r \<ge> 1 \<and> r \<le> 8)"

text \<open>\<^verbatim>\<open>r >= 3 && r <= 6\<close>, the test the source repeats for the chrysalis zone.\<close>

definition inZone :: "int \<Rightarrow> bool" where
  "inZone r = (r \<ge> 3 \<and> r \<le> 6)"

text \<open>
  \<^verbatim>\<open>board.find(s => s.file===f && s.rank===r)!\<close> and
  \<^verbatim>\<open>board.find(s => s.id===id)\<close>; the index variant stands for the reference into
  the cloned board.
\<close>

definition findSquare :: "Square list \<Rightarrow> int \<Rightarrow> int \<Rightarrow> Square option" where
  "findSquare b f r = find (\<lambda>s. file_sq s = f \<and> rank s = r) b"

definition findById :: "Square list \<Rightarrow> SquareId \<Rightarrow> Square option" where
  "findById b i = find (\<lambda>s. id_sq s = i) b"

fun findIndex :: "('a \<Rightarrow> bool) \<Rightarrow> 'a list \<Rightarrow> nat option" where
  "findIndex p [] = None"
| "findIndex p (x # xs) = (if p x then Some 0 else map_option Suc (findIndex p xs))"

definition occupantAt :: "Square list \<Rightarrow> int \<Rightarrow> int \<Rightarrow> error + Occupant" where
  "occupantAt b f r =
     (case findSquare b f r of None \<Rightarrow> Inl TypeError | Some s \<Rightarrow> Inr (occupant s))"

subsection \<open>Move generator\<close>

text \<open>\<^verbatim>\<open>canLand\<close>, the closure of \<^verbatim>\<open>legalMovesForPiece\<close>, with its captured variables.\<close>

definition canLand :: "Square list \<Rightarrow> Color \<Rightarrow> bool \<Rightarrow> int \<Rightarrow> int \<Rightarrow> error + bool" where
  "canLand b color limitTo316 nf nr =
     (if \<not> inBounds nf nr then Inr False
      else if limitTo316 \<and> \<not> inZone nr then Inr False
      else bindE (occupantAt b nf nr) (\<lambda>oc. Inr (oc = Empty \<or> enemyPiece color oc)))"

text \<open>
  The \<^verbatim>\<open>while(inBounds(nf,nr))\<close> loop of \<^verbatim>\<open>pushRays\<close> for one direction, started at
  the current \<open>(nf, nr)\<close>; it returns the moves this ray pushes. The source calls it only
  with the constant direction tables below, none of which holds \<open>(0,0)\<close>; the test
  \<open>(df, dr) \<noteq> (0, 0)\<close> is what makes the recursion total.
\<close>

function ray :: "Square list \<Rightarrow> Color \<Rightarrow> bool \<Rightarrow> int \<Rightarrow> int \<Rightarrow> int \<Rightarrow> int \<Rightarrow> error + Move list" where
  "ray b color limitTo316 df dr nf nr =
     (if inBounds nf nr \<and> (df, dr) \<noteq> (0, 0) then
        (if limitTo316 \<and> \<not> inZone nr then Inr []
         else case occupantAt b nf nr of
                Inl e \<Rightarrow> Inl e
              | Inr Empty \<Rightarrow>
                  (case ray b color limitTo316 df dr (nf + df) (nr + dr) of
                     Inl e \<Rightarrow> Inl e
                   | Inr ms \<Rightarrow> Inr ((nf, nr) # ms))
              | Inr oc \<Rightarrow> Inr (if enemyPiece color oc then [(nf, nr)] else []))
      else Inr [])"
  by pat_completeness auto
termination
  by (relation "measure (\<lambda>(b, color, lim, df, dr, nf, nr).
        if df > 0 then nat (8 - nf) else if df < 0 then nat (nf + 1)
        else if dr > 0 then nat (9 - nr) else nat nr)")
     (auto simp: inBounds_def)

fun pushRays :: "Square list \<Rightarrow> Color \<Rightarrow> bool \<Rightarrow> int \<Rightarrow> int \<Rightarrow> (int \<times> int) list \<Rightarrow> error + Move list" where
  "pushRays b color limitTo316 f0 r0 [] = Inr []"
| "pushRays b color limitTo316 f0 r0 ((df, dr) # dirs) =
     (case ray b color limitTo316 df dr (f0 + df) (r0 + dr) of
        Inl e \<Rightarrow> Inl e
      | Inr ms \<Rightarrow>
          (case pushRays b color limitTo316 f0 r0 dirs of
             Inl e \<Rightarrow> Inl e
           | Inr ms' \<Rightarrow> Inr (ms @ ms')))"

text \<open>The \<^verbatim>\<open>for (const [df,dr] of deltas)\<close> loops of the knight and the king.\<close>

fun landAll :: "Square list \<Rightarrow> Color \<Rightarrow> bool \<Rightarrow> int \<Rightarrow> int \<Rightarrow> (int \<times> int) list \<Rightarrow> error + Move list" where
  "landAll b color limitTo316 f0 r0 [] = Inr []"
| "landAll b color limitTo316 f0 r0 ((df, dr) # ds) =
     (case canLand b color limitTo316 (f0 + df) (r0 + dr) of
        Inl e \<Rightarrow> Inl e
      | Inr ok \<Rightarrow>
          (case landAll b color limitTo316 f0 r0 ds of
             Inl e \<Rightarrow> Inl e
           | Inr ms \<Rightarrow> Inr (if ok then (f0 + df, r0 + dr) # ms else ms)))"

definition knightDeltas :: "(int \<times> int) list" where
  "knightDeltas = [(1,2),(2,1),(-1,2),(-2,1),(1,-2),(2,-1),(-1,-2),(-2,-1)]"

definition bishopDirs :: "(int \<times> int) list" where
  "bishopDirs = [(1,1),(1,-1),(-1,1),(-1,-1)]"

definition rookDirs :: "(int \<times> int) list" where
  "rookDirs = [(1,0),(-1,0),(0,1),(0,-1)]"

definition queenDirs :: "(int \<times> int) list" where
  "queenDirs = [(1,0),(-1,0),(0,1),(0,-1),(1,1),(1,-1),(-1,1),(-1,-1)]"

text \<open>The nested \<^verbatim>\<open>df\<close>, \<^verbatim>\<open>dr\<close> loops of the king, \<open>(0,0)\<close> skipped.\<close>

definition kingDeltas :: "(int \<times> int) list" where
  "kingDeltas = [(-1,-1),(-1,0),(-1,1),(0,-1),(0,1),(1,-1),(1,0),(1,1)]"

text \<open>The pawn's diagonal captures, \<^verbatim>\<open>for(const df of [-1,1])\<close>.\<close>

fun pawnCaptures :: "Square list \<Rightarrow> Color \<Rightarrow> int \<Rightarrow> int \<Rightarrow> int list \<Rightarrow> error + Move list" where
  "pawnCaptures b color f0 nr [] = Inr []"
| "pawnCaptures b color f0 nr (df # dfs) =
     (if \<not> inBounds (f0 + df) nr then pawnCaptures b color f0 nr dfs
      else case occupantAt b (f0 + df) nr of
             Inl e \<Rightarrow> Inl e
           | Inr oc \<Rightarrow>
               (case pawnCaptures b color f0 nr dfs of
                  Inl e \<Rightarrow> Inl e
                | Inr ms \<Rightarrow> Inr (if enemyPiece color oc then (f0 + df, nr) # ms else ms)))"

definition pawnMoves :: "Square list \<Rightarrow> Color \<Rightarrow> int \<Rightarrow> int \<Rightarrow> error + Move list" where
  "pawnMoves b color f0 r0 =
     (let dir = (if color = White then -1 else 1);
          oneR = r0 + dir
      in bindE (if inBounds f0 oneR
                then (case findSquare b f0 oneR of
                        None \<Rightarrow> Inl TypeError
                      | Some front \<Rightarrow> Inr (if occupant front = Empty then [(f0, oneR)] else []))
                else Inr [])
           (\<lambda>fwd. bindE (pawnCaptures b color f0 (r0 + dir) [-1, 1])
                     (\<lambda>caps. Inr (fwd @ caps))))"

text \<open>
  \<^verbatim>\<open>legalMovesForPiece(gs, from)\<close>. The source casts \<^verbatim>\<open>from.occupant\<close> to a piece: on
  \<^verbatim>\<open>null\<close> the read of \<^verbatim>\<open>occ.color\<close> throws; on a metamorph \<^verbatim>\<open>occ.type\<close> is
  \<^verbatim>\<open>undefined\<close>, no \<^verbatim>\<open>case\<close> matches and no move is produced.
\<close>

definition legalMovesForPiece :: "GameState \<Rightarrow> Square \<Rightarrow> error + Move list" where
  "legalMovesForPiece gs from =
     (case occupant from of
        Empty \<Rightarrow> Inl TypeError
      | Metamorph c \<Rightarrow> Inr []
      | Piece color t born mustReturn returnByTurn \<Rightarrow>
          (let b = board gs; f0 = file_sq from; r0 = rank from;
               limitTo316 = (\<not> mustReturn)
           in case t of
                N \<Rightarrow> landAll b color limitTo316 f0 r0 knightDeltas
              | B \<Rightarrow> pushRays b color limitTo316 f0 r0 bishopDirs
              | R \<Rightarrow> pushRays b color limitTo316 f0 r0 rookDirs
              | Q \<Rightarrow> pushRays b color limitTo316 f0 r0 queenDirs
              | K \<Rightarrow> landAll b color limitTo316 f0 r0 kingDeltas
              | P \<Rightarrow> pawnMoves b color f0 r0))"

text \<open>\<^verbatim>\<open>legalMovesForMetamorph(gs, from)\<close>; \<^verbatim>\<open>m.color\<close> throws on an empty square.\<close>

definition legalMovesForMetamorph :: "GameState \<Rightarrow> Square \<Rightarrow> error + Move list" where
  "legalMovesForMetamorph gs from =
     (case colorOf (occupant from) of
        None \<Rightarrow> Inl TypeError
      | Some c \<Rightarrow>
          (let dir = (if c = White then -1 else 1);
               f0 = file_sq from; r0 = rank from; nr = r0 + dir
           in if \<not> inBounds f0 nr then Inr []
              else case findSquare (board gs) f0 nr of
                     None \<Rightarrow> Inl TypeError
                   | Some dest \<Rightarrow> Inr (if occupant dest \<noteq> Empty then [] else [(f0, nr)])))"

subsection \<open>Transformation engine\<close>

text \<open>\<^verbatim>\<open>counts[color][t] = v\<close> on one of the two per-colour tables.\<close>

definition setCount :: "(Color \<Rightarrow> ChrysalisStock) \<Rightarrow> Color \<Rightarrow> PieceType \<Rightarrow> int \<Rightarrow> (Color \<Rightarrow> ChrysalisStock)" where
  "setCount tab c t v = tab(c := (tab c)(t := v))"

text \<open>\<^verbatim>\<open>sq.occupant = oc\<close> for the square of the board with index \<open>i\<close>.\<close>

definition setOccupant :: "Square list \<Rightarrow> nat \<Rightarrow> Occupant \<Rightarrow> Square list" where
  "setOccupant b i oc = b[i := (b ! i)\<lparr>occupant := oc\<rparr>]"

text \<open>
  The body of the \<^verbatim>\<open>for (const sq of newGs.board)\<close> loop of \<^verbatim>\<open>applyAutoTransforms\<close>:
  the square and the state after the iteration. Only \<open>stock\<close>, \<open>kingOnBoard\<close> and
  \<open>kingProtectedUntil\<close> of the state change; the board is rebuilt by the loop.
\<close>

definition transformSquare :: "Square \<Rightarrow> GameState \<Rightarrow> Square \<times> GameState" where
  "transformSquare sq g =
     (if \<not> inZone (rank sq) then (sq, g)
      else case blueSymbol sq of
        None \<Rightarrow> (sq, g)
      | Some needed \<Rightarrow>
          (case occupant sq of
             Empty \<Rightarrow> (sq, g)
           | Metamorph color \<Rightarrow>
               (if stock g color needed > 0 then
                  (let g1 = g\<lparr>stock := setCount (stock g) color needed (stock g color needed - 1)\<rparr>;
                       g2 = (if needed = K
                             then g1\<lparr>kingOnBoard := (kingOnBoard g1)(color := True),
                                     kingProtectedUntil := (kingProtectedUntil g1)(color := Some (moveNumber g1))\<rparr>
                             else g1)
                   in (sq\<lparr>occupant := Piece color needed (moveNumber g) False None\<rparr>, g2))
                else (sq, g))
           | Piece color current born mr rb \<Rightarrow>
               (if current \<noteq> needed \<and> stock g color needed > 0 then
                  (let g1 = g\<lparr>stock := setCount (stock g) color current
                                  (min (INITIAL_COUNTS current) (stock g color current + 1))\<rparr>;
                       g2 = g1\<lparr>stock := setCount (stock g1) color needed (stock g1 color needed - 1)\<rparr>;
                       g3 = (if current = K \<and> needed \<noteq> K
                             then g2\<lparr>kingOnBoard := (kingOnBoard g2)(color := False)\<rparr> else g2);
                       g4 = (if needed = K
                             then g3\<lparr>kingOnBoard := (kingOnBoard g3)(color := True),
                                     kingProtectedUntil := (kingProtectedUntil g3)(color := Some (moveNumber g3))\<rparr>
                             else g3)
                   in (sq\<lparr>occupant := Piece color needed (moveNumber g) False None\<rparr>, g4))
                else (sq, g))))"

fun sweepLoop :: "Square list \<Rightarrow> GameState \<Rightarrow> Square list \<times> GameState" where
  "sweepLoop [] g = ([], g)"
| "sweepLoop (sq # sqs) g =
     (case transformSquare sq g of
        (sq', g') \<Rightarrow> (case sweepLoop sqs g' of (sqs', g'') \<Rightarrow> (sq' # sqs', g'')))"

text \<open>\<^verbatim>\<open>applyAutoTransforms(gs).newGs\<close>\<close>

definition applyAutoTransforms :: "GameState \<Rightarrow> GameState" where
  "applyAutoTransforms gs = (case sweepLoop (board gs) gs of (b', g') \<Rightarrow> g'\<lparr>board := b'\<rparr>)"

subsection \<open>Win detector\<close>

fun isKingOf :: "Color \<Rightarrow> Occupant \<Rightarrow> bool" where
  "isKingOf color (Piece c t b mr rb) = (c = color \<and> t = K)"
| "isKingOf color _ = False"

fun isPawnOf :: "Color \<Rightarrow> Occupant \<Rightarrow> bool" where
  "isPawnOf color (Piece c t b mr rb) = (c = color \<and> t = P)"
| "isPawnOf color _ = False"

fun isMetamorphOf :: "Color \<Rightarrow> Occupant \<Rightarrow> bool" where
  "isMetamorphOf color (Metamorph c) = (c = color)"
| "isMetamorphOf color _ = False"

fun isPieceOf :: "Color \<Rightarrow> Occupant \<Rightarrow> bool" where
  "isPieceOf color (Piece c t b mr rb) = (c = color)"
| "isPieceOf color _ = False"

text \<open>The loop of \<^verbatim>\<open>isSquareAttacked\<close>, with its early \<^verbatim>\<open>return true\<close>.\<close>

fun attackedLoop :: "GameState \<Rightarrow> int \<Rightarrow> int \<Rightarrow> Color \<Rightarrow> Square list \<Rightarrow> error + bool" where
  "attackedLoop gs f r by [] = Inr False"
| "attackedLoop gs f r by (sq # sqs) =
     (if \<not> isPieceOf by (occupant sq) then attackedLoop gs f r by sqs
      else case legalMovesForPiece gs sq of
             Inl e \<Rightarrow> Inl e
           | Inr moves \<Rightarrow>
               (if (\<exists>m \<in> set moves. fst m = f \<and> snd m = r) then Inr True
                else attackedLoop gs f r by sqs))"

definition isSquareAttacked :: "GameState \<Rightarrow> int \<Rightarrow> int \<Rightarrow> Color \<Rightarrow> error + bool" where
  "isSquareAttacked gs f r by = attackedLoop gs f r by (board gs)"

definition findKingSquare :: "GameState \<Rightarrow> Color \<Rightarrow> Square option" where
  "findKingSquare gs color = find (\<lambda>sq. isKingOf color (occupant sq)) (board gs)"

fun pawnLoop :: "GameState \<Rightarrow> Color \<Rightarrow> Square list \<Rightarrow> error + bool" where
  "pawnLoop gs color [] = Inr False"
| "pawnLoop gs color (sq # sqs) =
     (if isPawnOf color (occupant sq) then
        (case legalMovesForPiece gs sq of
           Inl e \<Rightarrow> Inl e
         | Inr ms \<Rightarrow> if length ms > 0 then Inr True else pawnLoop gs color sqs)
      else pawnLoop gs color sqs)"

definition anyPawnCanMove :: "GameState \<Rightarrow> Color \<Rightarrow> error + bool" where
  "anyPawnCanMove gs color = pawnLoop gs color (board gs)"

fun metamorphLoop :: "GameState \<Rightarrow> Color \<Rightarrow> Square list \<Rightarrow> error + bool" where
  "metamorphLoop gs color [] = Inr False"
| "metamorphLoop gs color (sq # sqs) =
     (if isMetamorphOf color (occupant sq) then
        (case legalMovesForMetamorph gs sq of
           Inl e \<Rightarrow> Inl e
         | Inr ms \<Rightarrow> if length ms > 0 then Inr True else metamorphLoop gs color sqs)
      else metamorphLoop gs color sqs)"

definition anyMetamorphCanMove :: "GameState \<Rightarrow> Color \<Rightarrow> error + bool" where
  "anyMetamorphCanMove gs color = metamorphLoop gs color (board gs)"

definition hasAnyMetamorph :: "GameState \<Rightarrow> Color \<Rightarrow> bool" where
  "hasAnyMetamorph gs color = list_ex (\<lambda>s. isMetamorphOf color (occupant s)) (board gs)"

definition hasAnyPawn :: "GameState \<Rightarrow> Color \<Rightarrow> bool" where
  "hasAnyPawn gs color = list_ex (\<lambda>s. isPawnOf color (occupant s)) (board gs)"

text \<open>\<^verbatim>\<open>kingMoves.filter(m => !isSquareAttacked(gs, m.f, m.r, lastMover))\<close>\<close>

fun safeMoves :: "GameState \<Rightarrow> Color \<Rightarrow> Move list \<Rightarrow> error + Move list" where
  "safeMoves gs lastMover [] = Inr []"
| "safeMoves gs lastMover (m # ms) =
     (case isSquareAttacked gs (fst m) (snd m) lastMover of
        Inl e \<Rightarrow> Inl e
      | Inr att \<Rightarrow>
          (case safeMoves gs lastMover ms of
             Inl e \<Rightarrow> Inl e
           | Inr rest \<Rightarrow> Inr (if \<not> att then m # rest else rest)))"

text \<open>The checkmate block of \<^verbatim>\<open>detectWin\<close>: whether it returns the checkmate result.\<close>

definition checkmated :: "GameState \<Rightarrow> Color \<Rightarrow> Color \<Rightarrow> error + bool" where
  "checkmated gs opponent lastMover =
     (if kingOnBoard gs opponent then
        (case findKingSquare gs opponent of
           None \<Rightarrow> Inr False
         | Some ksq \<Rightarrow>
             bindE (isSquareAttacked gs (file_sq ksq) (rank ksq) lastMover) (\<lambda>inCheck.
               if inCheck then
                 bindE (legalMovesForPiece gs ksq) (\<lambda>ms.
                   let kingMoves = filter (\<lambda>m. isKingOf opponent (occupant ksq)) ms
                   in bindE (safeMoves gs lastMover kingMoves) (\<lambda>safeKingMoves.
                        Inr (length safeKingMoves = 0)))
               else Inr False))
      else Inr False)"

text \<open>The \<^verbatim>\<open>for(const color of ["white","black"])\<close> loop of \<^verbatim>\<open>detectWin\<close>.\<close>

fun immobilityLoop :: "GameState \<Rightarrow> Color list \<Rightarrow> error + (Color \<times> string) option" where
  "immobilityLoop gs [] = Inr None"
| "immobilityLoop gs (color # cs) =
     (if \<not> kingOnBoard gs color then
        (let noPawns = (\<not> hasAnyPawn gs color) in
         bindE (if \<not> noPawns then bindE (anyPawnCanMove gs color) (\<lambda>a. Inr (\<not> a)) else Inr False)
           (\<lambda>pawnsStuck.
              let noMorphs = (\<not> hasAnyMetamorph gs color) in
              bindE (if \<not> noMorphs then bindE (anyMetamorphCanMove gs color) (\<lambda>a. Inr (\<not> a))
                     else Inr False)
                (\<lambda>morphsStuck.
                   if (noPawns \<or> pawnsStuck) \<and> (noMorphs \<or> morphsStuck)
                   then Inr (Some (otherColor color, ''no king + no mobile pawns/metamorphs''))
                   else immobilityLoop gs cs)))
      else immobilityLoop gs cs)"

definition detectWin :: "GameState \<Rightarrow> Color \<Rightarrow> Color option \<Rightarrow> error + (Color \<times> string) option" where
  "detectWin gs lastMover capturedKing =
     (let opponent = turn gs in
      if capturedKing \<noteq> None then Inr (Some (lastMover, ''king captured''))
      else bindE (checkmated gs opponent lastMover) (\<lambda>mate.
             if mate then Inr (Some (lastMover, ''checkmate''))
             else immobilityLoop gs [White, Black]))"

subsection \<open>Move applier\<close>

definition colorName :: "Color \<Rightarrow> string" where
  "colorName c = (if c = White then ''white'' else ''black'')"

text \<open>
  Lines 258--261 of \<^verbatim>\<open>performMove\<close>: the captured piece is recorded in the quietus.
  \<open>j\<close> is the index of \<^verbatim>\<open>to\<close> in the cloned board.
\<close>

definition recordCapture :: "GameState \<Rightarrow> nat \<Rightarrow> GameState" where
  "recordCapture g j =
     (case occupant (board g ! j) of
        Piece tc tt born mr rb \<Rightarrow>
          (let g1 = g\<lparr>quietus := setCount (quietus g) tc tt (quietus g tc tt + 1)\<rparr>
           in if tt = K then g1\<lparr>kingOnBoard := (kingOnBoard g1)(tc := False)\<rparr> else g1)
      | _ \<Rightarrow> g)"

text \<open>The colour of \<^verbatim>\<open>target\<close> when it is a king: \<^verbatim>\<open>capturedKing\<close> of the source.\<close>

definition capturedKingOf :: "Occupant \<Rightarrow> Color option" where
  "capturedKingOf target = (case target of Piece tc tt born mr rb \<Rightarrow> if tt = K then Some tc else None | _ \<Rightarrow> None)"

text \<open>
  Lines 263--266: \<^verbatim>\<open>to.occupant = from.occupant; from.occupant = null\<close> and the
  \<^verbatim>\<open>lastMove\<close> record; \<open>i\<close> is the index of \<^verbatim>\<open>from\<close>.
\<close>

definition relocate :: "Square list \<Rightarrow> nat \<Rightarrow> nat \<Rightarrow> Square list" where
  "relocate b i j = setOccupant (setOccupant b j (occupant (b ! i))) i Empty"

text \<open>Lines 268--273: a loan piece that lands inside ranks 3..6 loses its loan flags.\<close>

definition clearLandedLoan :: "GameState \<Rightarrow> nat \<Rightarrow> GameState" where
  "clearLandedLoan g j =
     (let to = board g ! j in
      case occupant to of
        Piece c t born mr rb \<Rightarrow>
          (if mr \<and> inZone (rank to)
           then g\<lparr>board := setOccupant (board g) j (Piece c t born False None)\<rparr>
           else g)
      | _ \<Rightarrow> g)"

text \<open>Lines 275--286: the landed piece transforms at once.\<close>

definition landPiece :: "GameState \<Rightarrow> nat \<Rightarrow> GameState" where
  "landPiece g j =
     (let to = board g ! j in
      case occupant to of
        Piece color current born mr rb \<Rightarrow>
          (case blueSymbol to of
             None \<Rightarrow> g
           | Some needed \<Rightarrow>
               (if inZone (rank to) \<and> current \<noteq> needed \<and> stock g color needed > 0 then
                  (let g1 = g\<lparr>stock := setCount (stock g) color current
                                  (min (INITIAL_COUNTS current) (stock g color current + 1))\<rparr>;
                       g2 = g1\<lparr>stock := setCount (stock g1) color needed (stock g1 color needed - 1)\<rparr>;
                       g3 = g2\<lparr>board := setOccupant (board g2) j (Piece color needed (moveNumber g2) False None)\<rparr>;
                       g4 = (if current = K \<and> needed \<noteq> K
                             then g3\<lparr>kingOnBoard := (kingOnBoard g3)(color := False)\<rparr> else g3)
                   in if needed = K
                      then g4\<lparr>kingOnBoard := (kingOnBoard g4)(color := True),
                              kingProtectedUntil := (kingProtectedUntil g4)(color := Some (moveNumber g4 + 1))\<rparr>
                      else g4)
                else g))
      | _ \<Rightarrow> g)"

text \<open>Lines 288--296: the landed metamorph transforms at once.\<close>

definition landMetamorph :: "GameState \<Rightarrow> nat \<Rightarrow> GameState" where
  "landMetamorph g j =
     (let to = board g ! j in
      case occupant to of
        Metamorph color \<Rightarrow>
          (case blueSymbol to of
             None \<Rightarrow> g
           | Some needed \<Rightarrow>
               (if inZone (rank to) \<and> stock g color needed > 0 then
                  (let g1 = g\<lparr>stock := setCount (stock g) color needed (stock g color needed - 1)\<rparr>;
                       g2 = g1\<lparr>board := setOccupant (board g1) j (Piece color needed (moveNumber g1) False None)\<rparr>
                   in if needed = K
                      then g2\<lparr>kingOnBoard := (kingOnBoard g2)(color := True),
                              kingProtectedUntil := (kingProtectedUntil g2)(color := Some (moveNumber g2 + 1))\<rparr>
                      else g2)
                else g))
      | _ \<Rightarrow> g)"

text \<open>Lines 298--302: a pawn on its far rank opens a promotion request.\<close>

definition flagPromotion :: "GameState \<Rightarrow> nat \<Rightarrow> GameState" where
  "flagPromotion g j =
     (let to = board g ! j in
      case occupant to of
        Piece c t born mr rb \<Rightarrow>
          (if t = P \<and> ((c = White \<and> rank to = 1) \<or> (c = Black \<and> rank to = 8))
           then g\<lparr>promotion := Some (id_sq to, c)\<rparr> else g)
      | _ \<Rightarrow> g)"

text \<open>Lines 307--320, the body of the loan-expiry loop for one square.\<close>

definition expireSquare :: "Square \<Rightarrow> GameState \<Rightarrow> Square \<times> GameState" where
  "expireSquare sq g =
     (case occupant sq of
        Piece c t born mr rb \<Rightarrow>
          (case rb of
             None \<Rightarrow> (sq, g)
           | Some returnByTurn \<Rightarrow>
               (if mr then
                  (let justMoved = otherColor (turn g) in
                   if c = justMoved \<and> moveNumber g \<ge> returnByTurn then
                     (if \<not> inZone (rank sq)
                      then (sq\<lparr>occupant := Empty\<rparr>,
                            if t = K then g\<lparr>kingOnBoard := (kingOnBoard g)(c := False)\<rparr> else g)
                      else (sq\<lparr>occupant := Piece c t born False None\<rparr>, g))
                   else (sq, g))
                else (sq, g)))
      | _ \<Rightarrow> (sq, g))"

fun expireLoop :: "Square list \<Rightarrow> GameState \<Rightarrow> Square list \<times> GameState" where
  "expireLoop [] g = ([], g)"
| "expireLoop (sq # sqs) g =
     (case expireSquare sq g of
        (sq', g') \<Rightarrow> (case expireLoop sqs g' of (sqs', g'') \<Rightarrow> (sq' # sqs', g'')))"

definition expireLoans :: "GameState \<Rightarrow> GameState" where
  "expireLoans g = (case expireLoop (board g) g of (b', g') \<Rightarrow> g'\<lparr>board := b'\<rparr>)"

text \<open>
  Lines 258--321 of \<^verbatim>\<open>performMove\<close>, everything between the legality checks and the
  call of \<^verbatim>\<open>applyAutoTransforms\<close>: the state \<^verbatim>\<open>next\<close> after the loan-expiry loop.
\<close>

definition moved :: "GameState \<Rightarrow> SquareId \<Rightarrow> SquareId \<Rightarrow> nat \<Rightarrow> nat \<Rightarrow> Color \<Rightarrow> GameState" where
  "moved gs fromId toId i j moverColor =
     (let n1 = recordCapture gs j;
          n2 = n1\<lparr>board := relocate (board n1) i j, lastMove := Some (fromId, toId, moverColor)\<rparr>;
          n3 = clearLandedLoan n2 j;
          n4 = landPiece n3 j;
          n5 = landMetamorph n4 j;
          n6 = flagPromotion n5 j;
          n7 = n6\<lparr>turn := otherColor (turn n6)\<rparr>;
          n8 = n7\<lparr>moveNumber := moveNumber n7 + 1\<rparr>
      in expireLoans n8)"

text \<open>Lines 322--329: the sweep, the win detector and the result.\<close>

definition finishMove :: "GameState \<Rightarrow> Color option \<Rightarrow> error + GameState" where
  "finishMove next capturedKing =
     (let newGs = (applyAutoTransforms next)\<lparr>selected := None, message := None\<rparr>;
          lastMover = otherColor (turn newGs)
      in bindE (detectWin newGs lastMover capturedKing) (\<lambda>win.
           case win of
             None \<Rightarrow> Inr newGs
           | Some (w, reason) \<Rightarrow>
               Inr (newGs\<lparr>winner := Some w, winReason := Some reason,
                          message := Some (''Winner: '' @ colorName w @ '' ('' @ reason @ '')'')\<rparr>)))"

text \<open>
  The list \<^verbatim>\<open>legal\<close> of \<^verbatim>\<open>performMove\<close>: the metamorph generator for a metamorph,
  the piece generator otherwise.
\<close>

definition legalFor :: "GameState \<Rightarrow> Square \<Rightarrow> error + Move list" where
  "legalFor gs sFrom =
     (case occupant sFrom of
        Metamorph c \<Rightarrow> legalMovesForMetamorph gs sFrom
      | _ \<Rightarrow> legalMovesForPiece gs sFrom)"

text \<open>
  \<^verbatim>\<open>performMove(gs, fromId, toId)\<close>. \<^verbatim>\<open>sTo\<close> is never read. \<^verbatim>\<open>to\<close> is read first
  inside the callback of \<^verbatim>\<open>legal.some\<close>, so a missing \<^verbatim>\<open>toId\<close> throws only when
  \<^verbatim>\<open>legal\<close> is not empty.
\<close>

definition performMove :: "GameState \<Rightarrow> SquareId \<Rightarrow> SquareId \<Rightarrow> error + GameState" where
  "performMove gs fromId toId =
     (if winner gs \<noteq> None then Inr gs
      else case findIndex (\<lambda>s. id_sq s = fromId) (board gs) of
        None \<Rightarrow> Inl TypeError
      | Some i \<Rightarrow>
          (let sFrom = board gs ! i; mover = occupant sFrom in
           case colorOf mover of
             None \<Rightarrow> Inr gs
           | Some moverColor \<Rightarrow>
               (if moverColor \<noteq> turn gs then Inr gs
                else bindE (legalFor gs sFrom)
                  (\<lambda>legal.
                     if legal = [] then Inr (gs\<lparr>message := Some ''Illegal move.''\<rparr>)
                     else case findIndex (\<lambda>s. id_sq s = toId) (board gs) of
                       None \<Rightarrow> Inl TypeError
                     | Some j \<Rightarrow>
                         (let to = board gs ! j; target = occupant to in
                          if \<not> (\<exists>m \<in> set legal. fst m = file_sq to \<and> snd m = rank to)
                          then Inr (gs\<lparr>message := Some ''Illegal move.''\<rparr>)
                          else case capturedKingOf target of
                            None \<Rightarrow> finishMove (moved gs fromId toId i j moverColor) None
                          | Some targetColor \<Rightarrow>
                              (if \<not> kingOnBoard gs moverColor
                               then Inr (gs\<lparr>message :=
                                      Some ''You cannot take the king without your own king on the board.''\<rparr>)
                               else if kingProtectedUntil gs targetColor = Some (moveNumber gs)
                               then Inr (gs\<lparr>message := Some ''That king is protected this turn.''\<rparr>)
                               else finishMove (moved gs fromId toId i j moverColor)
                                      (Some targetColor)))))))"

subsection \<open>Promotion\<close>

text \<open>\<^verbatim>\<open>activeCounts(gs, color)[t]\<close>\<close>

definition activeCounts :: "GameState \<Rightarrow> Color \<Rightarrow> ChrysalisStock" where
  "activeCounts gs color t =
     int (length (filter (\<lambda>sq. case occupant sq of
                                 Piece c ty born mr rb \<Rightarrow> c = color \<and> ty = t
                               | _ \<Rightarrow> False) (board gs)))"

definition promotionAvailable :: "GameState \<Rightarrow> Color \<Rightarrow> PieceType \<Rightarrow> bool" where
  "promotionAvailable gs color t = (activeCounts gs color t < INITIAL_COUNTS t)"

text \<open>
  \<^verbatim>\<open>applyPromotionChoice(state, type)\<close>. The square is looked up before the cap test,
  but only written after it: an unknown square throws only when the choice is available.
\<close>

definition applyPromotionChoice :: "GameState \<Rightarrow> PieceType \<Rightarrow> error + GameState" where
  "applyPromotionChoice state need =
     (case promotion state of
        None \<Rightarrow> Inr state
      | Some (square, color) \<Rightarrow>
          (if \<not> promotionAvailable state color need then Inr state
           else
             (let n1 = (if quietus state color need > 0
                        then state\<lparr>quietus := setCount (quietus state) color need (quietus state color need - 1)\<rparr>
                        else state);
                  deadline = moveNumber n1 + 1
              in case findIndex (\<lambda>s. id_sq s = square) (board n1) of
                   None \<Rightarrow> Inl TypeError
                 | Some k \<Rightarrow>
                     (let n2 = n1\<lparr>board := setOccupant (board n1) k
                                   (Piece color need (moveNumber n1) True (Some deadline))\<rparr>;
                          n3 = (if need = K
                                then n2\<lparr>kingOnBoard := (kingOnBoard n2)(color := True),
                                        kingProtectedUntil :=
                                          (kingProtectedUntil n2)(color := Some (moveNumber n2 + 1))\<rparr>
                                else n2);
                          n4 = n3\<lparr>promotion := None\<rparr>
                      in Inr (applyAutoTransforms n4)))))"

subsection \<open>AI search: move enumeration\<close>

definition kingInCheck :: "GameState \<Rightarrow> Color \<Rightarrow> error + bool" where
  "kingInCheck gs color =
     (if \<not> kingOnBoard gs color then Inr False
      else case findKingSquare gs color of
             None \<Rightarrow> Inr False
           | Some ksq \<Rightarrow> isSquareAttacked gs (file_sq ksq) (rank ksq) (otherColor color))"

fun resolveLoop :: "GameState \<Rightarrow> Color \<Rightarrow> PieceType list \<Rightarrow> error + GameState" where
  "resolveLoop state color [] = Inr state"
| "resolveLoop state color (t # ts) =
     (if promotionAvailable state color t then applyPromotionChoice state t
      else resolveLoop state color ts)"

definition aiResolvePromotion :: "GameState \<Rightarrow> Color \<Rightarrow> error + GameState" where
  "aiResolvePromotion state color = resolveLoop state color [Q, R, B, N, K]"

text \<open>A candidate \<^verbatim>\<open>{from, to, next}\<close>.\<close>

type_synonym Candidate = "SquareId \<times> SquareId \<times> GameState"

definition nextOf :: "Candidate \<Rightarrow> GameState" where
  "nextOf mv = snd (snd mv)"

text \<open>
  JavaScript truthiness of \<^verbatim>\<open>message\<close>: \<^verbatim>\<open>null\<close>, \<^verbatim>\<open>undefined\<close> and the empty
  string are falsy.
\<close>

definition truthyMessage :: "string option \<Rightarrow> bool" where
  "truthyMessage m = (case m of None \<Rightarrow> False | Some s \<Rightarrow> s \<noteq> [])"

text \<open>The inner \<^verbatim>\<open>for(const m of ms)\<close> loop of \<^verbatim>\<open>generateMoves\<close> for one square.\<close>

fun tryMoves :: "GameState \<Rightarrow> Color \<Rightarrow> SquareId \<Rightarrow> Move list \<Rightarrow> error + Candidate list" where
  "tryMoves base color sid [] = Inr []"
| "tryMoves base color sid (m # ms) =
     bindE (performMove base sid (idFrom (fst m) (snd m))) (\<lambda>n.
       bindE (case promotion n of
                None \<Rightarrow> Inr n
              | Some (sq, c) \<Rightarrow> if c = color then aiResolvePromotion n color else Inr n) (\<lambda>n2.
         bindE (tryMoves base color sid ms) (\<lambda>rest.
           Inr (if \<not> truthyMessage (message n2)
                then (sid, idFrom (fst m) (snd m), n2) # rest else rest))))"

text \<open>The outer \<^verbatim>\<open>for(const sq of base.board)\<close> loop: the list \<^verbatim>\<open>candidates\<close>.\<close>

fun candidatesLoop :: "GameState \<Rightarrow> Color \<Rightarrow> Square list \<Rightarrow> error + Candidate list" where
  "candidatesLoop base color [] = Inr []"
| "candidatesLoop base color (sq # sqs) =
     bindE (if isMetamorphOf color (occupant sq) then
              bindE (legalMovesForMetamorph base sq) (\<lambda>ms. tryMoves base color (id_sq sq) ms)
            else if isPieceOf color (occupant sq) then
              bindE (legalMovesForPiece base sq) (\<lambda>ms. tryMoves base color (id_sq sq) ms)
            else Inr [])
       (\<lambda>cs. bindE (candidatesLoop base color sqs) (\<lambda>rest. Inr (cs @ rest)))"

definition candidates :: "GameState \<Rightarrow> Color \<Rightarrow> error + Candidate list" where
  "candidates gs color = (let base = gs\<lparr>turn := color\<rparr> in candidatesLoop base color (board base))"

text \<open>\<^verbatim>\<open>candidates.filter(mv => !kingInCheck(mv.next, color))\<close>\<close>

fun safeCandidates :: "Color \<Rightarrow> Candidate list \<Rightarrow> error + Candidate list" where
  "safeCandidates color [] = Inr []"
| "safeCandidates color (mv # mvs) =
     bindE (kingInCheck (nextOf mv) color) (\<lambda>chk.
       bindE (safeCandidates color mvs) (\<lambda>rest.
         Inr (if \<not> chk then mv # rest else rest)))"

definition generateMoves :: "GameState \<Rightarrow> Color \<Rightarrow> error + Candidate list" where
  "generateMoves gs color =
     bindE (candidates gs color) (\<lambda>cands.
       bindE (safeCandidates color cands) (\<lambda>safe.
         bindE (kingInCheck gs color) (\<lambda>chk.
           if chk then Inr safe
           else Inr (if length safe > 0 then safe else cands))))"

text \<open>
  \<^verbatim>\<open>pickAiMove(gs)\<close>. With no move the state is returned as it is. Otherwise every
  level returns the \<^verbatim>\<open>next\<close> of one entry of \<^verbatim>\<open>moves\<close>: a random one (Easy), or a
  maximal one under the floating-point evaluation (Medium, Hard). Which entry is not
  modelled: \<open>pick\<close> stands for the selection and yields the position of the entry
  taken, or a throw of the evaluation.
\<close>

definition pickAiMove :: "(AiLevel \<Rightarrow> Candidate list \<Rightarrow> error + nat) \<Rightarrow> GameState \<Rightarrow> error + GameState" where
  "pickAiMove pick gs =
     bindE (generateMoves gs (cpuPlays (ai gs))) (\<lambda>moves.
       if length moves = 0 then Inr gs
       else bindE (pick (level (ai gs)) moves) (\<lambda>k. Inr (nextOf (moves ! (k mod length moves)))))"

subsection \<open>Initial setup\<close>

text \<open>
  \<^verbatim>\<open>createInitialBoard()\<close>. The source draws from \<^verbatim>\<open>Math.random()\<close>; here \<open>rnd i\<close> is
  the value drawn in the iteration of the shuffle loop with index \<open>i\<close>, an exact real in
  \<open>[0, 1)\<close>.
\<close>

definition RANKS :: "int list" where
  "RANKS = [1, 2, 3, 4, 5, 6, 7, 8]"

definition blankBoard :: "Square list" where
  "blankBoard =
     concat (map (\<lambda>r. map (\<lambda>f. \<lparr>id_sq = idFrom f r, file_sq = f, rank = r,
                                  blueSymbol = None, occupant = Empty\<rparr>) [0, 1, 2, 3, 4, 5, 6, 7]) RANKS)"

text \<open>\<^verbatim>\<open>Object.entries(pack)\<close>, in the insertion order of \<^verbatim>\<open>emptyStock()\<close>.\<close>

definition entries :: "ChrysalisStock \<Rightarrow> (PieceType \<times> int) list" where
  "entries pack = map (\<lambda>t. (t, pack t)) [K, Q, R, B, N, P]"

definition initialBag :: "PieceType list" where
  "initialBag = concat (map (\<lambda>(t, n). replicate (nat (n * 2)) t) (entries emptyStock))"

text \<open>
  \<^verbatim>\<open>[bag[i], bag[j]] = [bag[j], bag[i]]\<close>; \<open>j\<close> is inside the array whenever the
  drawn value is in \<open>[0, 1)\<close>.
\<close>

definition swap :: "nat \<Rightarrow> nat \<Rightarrow> 'a list \<Rightarrow> 'a list" where
  "swap i j bag = bag[i := bag ! j, j := bag ! i]"

text \<open>
  \<^verbatim>\<open>for (let i = bag.length - 1; i > 0; i--)\<close>, entered with the current \<open>i\<close>. The
  product \<^verbatim>\<open>Math.random() * (i + 1)\<close> is taken over the reals; the source rounds it to a
  double first, which for some draws floors to a neighbouring index. Either index lies in
  \<open>[0, i]\<close>, and nothing below depends on which swap is made beyond that.
\<close>

fun shuffleLoop :: "(nat \<Rightarrow> real) \<Rightarrow> nat \<Rightarrow> 'a list \<Rightarrow> 'a list" where
  "shuffleLoop rnd 0 bag = bag"
| "shuffleLoop rnd (Suc i) bag =
     (let j = nat \<lfloor>rnd (Suc i) * (real (Suc i) + 1)\<rfloor>
      in shuffleLoop rnd i (swap (Suc i) j bag))"

definition shuffledBag :: "(nat \<Rightarrow> real) \<Rightarrow> PieceType list" where
  "shuffledBag rnd = shuffleLoop rnd (length initialBag - 1) initialBag"

text \<open>The two loops over \<open>(r, f)\<close> that write \<^verbatim>\<open>s.blueSymbol = bag[k++]\<close>.\<close>

fun assignSymbols :: "PieceType list \<Rightarrow> nat \<Rightarrow> (int \<times> int) list \<Rightarrow> Square list \<Rightarrow> error + Square list" where
  "assignSymbols bag k [] b = Inr b"
| "assignSymbols bag k ((r, f) # rest) b =
     (case findIndex (\<lambda>sq. rank sq = r \<and> file_sq sq = f) b of
        None \<Rightarrow> Inl TypeError
      | Some i \<Rightarrow>
          assignSymbols bag (k + 1) rest
            (b[i := (b ! i)\<lparr>blueSymbol := (if k < length bag then Some (bag ! k) else None)\<rparr>]))"

text \<open>The loops that write \<^verbatim>\<open>s.occupant = { kind: "metamorph", color }\<close>.\<close>

fun fillMetamorphs :: "Color \<Rightarrow> (int \<times> int) list \<Rightarrow> Square list \<Rightarrow> error + Square list" where
  "fillMetamorphs color [] b = Inr b"
| "fillMetamorphs color ((r, f) # rest) b =
     (case findIndex (\<lambda>sq. rank sq = r \<and> file_sq sq = f) b of
        None \<Rightarrow> Inl TypeError
      | Some i \<Rightarrow> fillMetamorphs color rest (setOccupant b i (Metamorph color)))"

text \<open>\<^verbatim>\<open>for (r of rs) for (let f = 0; f < 8; f++)\<close>\<close>

definition coords :: "int list \<Rightarrow> (int \<times> int) list" where
  "coords rs = concat (map (\<lambda>r. map (\<lambda>f. (r, f)) [0, 1, 2, 3, 4, 5, 6, 7]) rs)"

definition createInitialBoard :: "(nat \<Rightarrow> real) \<Rightarrow> error + Square list" where
  "createInitialBoard rnd =
     bindE (assignSymbols (shuffledBag rnd) 0 (coords [3, 4, 5, 6]) blankBoard) (\<lambda>b1.
       bindE (fillMetamorphs Black (coords [1, 2]) b1) (\<lambda>b2.
         fillMetamorphs White (coords [7, 8]) b2))"

definition initialGame :: "(nat \<Rightarrow> real) \<Rightarrow> error + GameState" where
  "initialGame rnd =
     bindE (createInitialBoard rnd) (\<lambda>b.
       Inr \<lparr>board = b, turn = White, moveNumber = 1,
            stock = (\<lambda>c. emptyStock), quietus = (\<lambda>c. zeroStock),
            kingOnBoard = (\<lambda>c. False), kingProtectedUntil = (\<lambda>c. None),
            selected = None, promotion = None, message = None, winner = None,
            winReason = None,
            ai = \<lparr>mode = Human, cpuPlays = Black, level = Medium\<rparr>,
            lastMove = None\<rparr>)"

subsection \<open>Well-formed boards\<close>

text \<open>
  The identity of a square (its id, file and rank) is written once by
  \<^verbatim>\<open>createInitialBoard\<close> and never again: every board of a game has the 64 squares of
  \<open>blankBoard\<close>, in its order. \<open>complete\<close> is the part of it that the lookups by file and
  rank need.
\<close>

definition geometry :: "Square list \<Rightarrow> (SquareId \<times> int \<times> int) list" where
  "geometry b = map (\<lambda>s. (id_sq s, file_sq s, rank s)) b"

definition wellFormed :: "Square list \<Rightarrow> bool" where
  "wellFormed b = (geometry b = geometry blankBoard)"

definition squareIds :: "SquareId list" where
  "squareIds = map id_sq blankBoard"

definition complete :: "Square list \<Rightarrow> bool" where
  "complete b = (\<forall>f r. inBounds f r \<longrightarrow> findSquare b f r \<noteq> None)"

text \<open>The square \<^verbatim>\<open>board.find(s => s.id === sid)\<close> of a state.\<close>

definition squareOf :: "GameState \<Rightarrow> SquareId \<Rightarrow> Square" where
  "squareOf gs sid = (case findById (board gs) sid of Some s \<Rightarrow> s
                      | None \<Rightarrow> \<lparr>id_sq = sid, file_sq = -1, rank = -1, blueSymbol = None, occupant = Empty\<rparr>)"

subsection \<open>The initial board in closed form\<close>

text \<open>
  What \<^verbatim>\<open>createInitialBoard\<close> builds from a shuffled bag of 32 symbols: rank by rank,
  file by file, black metamorphs on ranks 1 and 2, white ones on ranks 7 and 8, and the
  symbol \<open>bag[(r - 3) * 8 + f]\<close> on the square of file \<open>f\<close> and rank \<open>r\<close> of ranks 3..6.
\<close>

definition setupBoard :: "PieceType list \<Rightarrow> Square list" where
  "setupBoard bag =
     map (\<lambda>(r, f). \<lparr>id_sq = idFrom f r, file_sq = f, rank = r,
            blueSymbol = (if inZone r then Some (bag ! nat ((r - 3) * 8 + f)) else None),
            occupant = (if r \<le> 2 then Metamorph Black
                        else if r \<ge> 7 then Metamorph White else Empty)\<rparr>)
       (coords RANKS)"

subsection \<open>Counting the non-loan pieces\<close>

text \<open>
  A loan is a piece with \<^verbatim>\<open>mustReturn\<close> set. \<open>supplyOf g c t\<close> is \<^verbatim>\<open>stock[c][t]\<close> plus the
  number of pieces of colour \<open>c\<close> and type \<open>t\<close> on the board that are no loans.
\<close>

fun isLoan :: "Occupant \<Rightarrow> bool" where
  "isLoan (Piece c t born mr rb) = mr"
| "isLoan _ = False"

fun nonLoan :: "Color \<Rightarrow> PieceType \<Rightarrow> Occupant \<Rightarrow> bool" where
  "nonLoan c t (Piece c' t' born mr rb) = (c' = c \<and> t' = t \<and> \<not> mr)"
| "nonLoan c t _ = False"

definition nonLoanCount :: "Square list \<Rightarrow> Color \<Rightarrow> PieceType \<Rightarrow> int" where
  "nonLoanCount b c t = int (length (filter (\<lambda>s. nonLoan c t (occupant s)) b))"

definition supplyOf :: "GameState \<Rightarrow> Color \<Rightarrow> PieceType \<Rightarrow> int" where
  "supplyOf g c t = stock g c t + nonLoanCount (board g) c t"

text \<open>What one occupant adds to \<open>nonLoanCount\<close>.\<close>

definition cnt :: "Color \<Rightarrow> PieceType \<Rightarrow> Occupant \<Rightarrow> int" where
  "cnt c t oc = (if nonLoan c t oc then 1 else 0)"

text \<open>
  The states of a game in which nothing is captured and no promotion is resolved: an
  initial game, then moves whose destination holds no piece.
\<close>

inductive quiet :: "GameState \<Rightarrow> bool" where
  start: "(\<forall>i. 0 \<le> rnd i \<and> rnd i < 1) \<Longrightarrow> initialGame rnd = Inr g \<Longrightarrow> quiet g"
| step: "quiet g \<Longrightarrow> performMove g fromId toId = Inr g' \<Longrightarrow>
         \<not> isPiece (occupant (squareOf g toId)) \<Longrightarrow> quiet g'"

subsection \<open>Example positions\<close>

text \<open>
  Positions for the concrete instances below, all on the 64 squares of
  \<^verbatim>\<open>createInitialBoard\<close>. \<open>symbolBoard\<close> carries the unshuffled bag on ranks 3..6:
  a3, b3 = K; c3, d3 = Q; e3..h3 = R; a4..d4 = B; e4..h4 = N; ranks 5 and 6 = P.
\<close>

definition symbolBoard :: "Square list" where
  "symbolBoard = (case assignSymbols initialBag 0 (coords [3, 4, 5, 6]) blankBoard of
                    Inr b \<Rightarrow> b | Inl e \<Rightarrow> [])"

definition place :: "SquareId \<Rightarrow> Occupant \<Rightarrow> Square list \<Rightarrow> Square list" where
  "place sid oc b = (case findIndex (\<lambda>s. id_sq s = sid) b of
                       None \<Rightarrow> b | Some i \<Rightarrow> setOccupant b i oc)"

text \<open>A state around a board: White to move at move 1, nothing in stock or quietus.\<close>

definition stateOf :: "Square list \<Rightarrow> GameState" where
  "stateOf b =
     \<lparr>board = b, turn = White, moveNumber = 1,
      stock = (\<lambda>c. zeroStock), quietus = (\<lambda>c. zeroStock),
      kingOnBoard = (\<lambda>c. False), kingProtectedUntil = (\<lambda>c. None),
      selected = None, promotion = None, message = None, winner = None,
      winReason = None,
      ai = \<lparr>mode = Human, cpuPlays = Black, level = Medium\<rparr>,
      lastMove = None\<rparr>"

text \<open>A white pawn on a3 that is no loan; and a white knight on d4 that is no loan.\<close>

definition pawnState :: GameState where
  "pawnState = stateOf (place ''a3'' (Piece White P 1 False None) symbolBoard)"

definition knightState :: GameState where
  "knightState = stateOf (place ''d4'' (Piece White N 1 False None) symbolBoard)"

text \<open>The initial game when every draw of the shuffle is 0.\<close>

definition startState :: GameState where
  "startState = (case initialGame (\<lambda>i. 0) of Inr g \<Rightarrow> g | Inl e \<Rightarrow> stateOf [])"

text \<open>Reading a result: whether the call returned, the state it returned, and a summary.\<close>

definition returned :: "error + 'a \<Rightarrow> bool" where
  "returned r = (case r of Inr g \<Rightarrow> True | Inl e \<Rightarrow> False)"

definition resultOf :: "error + GameState \<Rightarrow> GameState" where
  "resultOf r = (case r of Inr g \<Rightarrow> g | Inl e \<Rightarrow> stateOf [])"

definition view :: "GameState \<Rightarrow> SquareId list \<Rightarrow>
    Color \<times> int \<times> (SquareId \<times> Color) option \<times> Color option \<times> string option \<times> Occupant list" where
  "view g ids = (turn g, moveNumber g, promotion g, winner g, winReason g,
                 map (\<lambda>sid. occupant (squareOf g sid)) ids)"

text \<open>
  A white pawn on a2 about to promote, one metamorph each on h7 and h2, nothing in
  stock; then the state after a2-a1 (promotion pending for White, Black to move), and
  the state after Black's reply h2-h3 (promotion still pending, White to move).
\<close>

definition promoStart :: GameState where
  "promoStart = (stateOf (place ''a2'' (Piece White P 3 False None)
                   (place ''h7'' (Metamorph White)
                   (place ''h2'' (Metamorph Black) symbolBoard))))\<lparr>moveNumber := 5\<rparr>"

definition promoJustSet :: GameState where
  "promoJustSet = resultOf (performMove promoStart ''a2'' ''a1'')"

definition promoPending :: GameState where
  "promoPending = resultOf (performMove promoJustSet ''h2'' ''h3'')"

text \<open>
  A white king on e4 inside its protection window (move 4), attacked by a black rook on
  e6, Black to move, both kings on the board; the state after Black's a5-a6 (move 5),
  and the state after White's reply e4-e5 (move 6), where the rook can take the king.
  \<open>kingCreated\<close> is the initial game after h7-h6, where the metamorph lands on the K
  symbol of h6.
\<close>

definition kingDuel :: GameState where
  "kingDuel = (stateOf (place ''e4'' (Piece White K 3 False None)
                 (place ''e6'' (Piece Black R 2 False None)
                 (place ''a5'' (Piece Black K 1 False None) symbolBoard))))
               \<lparr>turn := Black, moveNumber := 4, kingOnBoard := (\<lambda>c. True),
                kingProtectedUntil := (\<lambda>c. if c = White then Some 4 else None)\<rparr>"

definition kingDuelReply :: GameState where
  "kingDuelReply = resultOf (performMove kingDuel ''a5'' ''a6'')"

definition kingDuelOpen :: GameState where
  "kingDuelOpen = resultOf (performMove kingDuelReply ''e4'' ''e5'')"

definition kingCreated :: GameState where
  "kingCreated = resultOf (performMove startState ''h7'' ''h6'')"

text \<open>
  The promotion of \<open>promoJustSet\<close> resolved to a queen (a loan on a1 with
  \<open>returnByTurn = 7\<close>, made at move 6 with Black to move); the state after Black's reply
  h2-h3 (move 7); the state after White's h7-h6 (move 8). \<open>loanInLoop\<close> is the state
  the expiry loop of that last move runs on.
\<close>

definition loanFresh :: GameState where
  "loanFresh = resultOf (applyPromotionChoice promoJustSet Q)"

definition loanAtDeadline :: GameState where
  "loanAtDeadline = resultOf (performMove loanFresh ''h2'' ''h3'')"

definition loanGone :: GameState where
  "loanGone = resultOf (performMove loanAtDeadline ''h7'' ''h6'')"


text \<open>
  A white queen that is no loan on e4, a square with the symbol N, while the white
  stock is full (one queen, two knights).
\<close>

definition clampState :: GameState where
  "clampState = (stateOf (place ''e4'' (Piece White Q 1 False None) symbolBoard))
                  \<lparr>stock := (\<lambda>c. emptyStock)\<rparr>"

text \<open>
  A checkmate in one: the black king on a3 between its own pawns on a4 and b3, a white
  bishop on c3 that covers b4, and a white knight on d4 that gives check from b5 (where
  the pawn on a4 could take it). Nothing is in stock.
\<close>

definition mateInOne :: GameState where
  "mateInOne = (stateOf (place ''a3'' (Piece Black K 2 False None)
                 (place ''a4'' (Piece Black P 3 False None)
                 (place ''b3'' (Piece Black P 4 False None)
                 (place ''c3'' (Piece White B 5 False None)
                 (place ''d4'' (Piece White N 6 False None)
                 (place ''g3'' (Piece White K 7 False None) symbolBoard)))))))
               \<lparr>moveNumber := 10, kingOnBoard := (\<lambda>c. True)\<rparr>"

definition mated :: GameState where
  "mated = resultOf (performMove mateInOne ''d4'' ''b5'')"




text \<open>All fields of a state, the tables read at one colour and type.\<close>

definition fields :: "GameState \<Rightarrow> Color \<Rightarrow> PieceType \<Rightarrow>
    (Square list \<times> Color \<times> int \<times> SquareId option \<times> (SquareId \<times> Color) option)
    \<times> (string option \<times> Color option \<times> string option \<times> AiConfig \<times> (SquareId \<times> SquareId \<times> Color) option)
    \<times> (int \<times> int \<times> bool \<times> int option)" where
  "fields g c t =
     ((board g, turn g, moveNumber g, selected g, promotion g),
      (message g, winner g, winReason g, ai g, lastMove g),
      (stock g c t, quietus g c t, kingOnBoard g c, kingProtectedUntil g c))"

subsection \<open>The geometry of the pieces\<close>

text \<open>
  The chess geometry of a piece, worded as the specification words it. A square can be
  landed on when it is on the board and empty or held by an opposing piece; a slider
  passes over empty squares only. With \<open>zone\<close> set, every square landed on or passed over
  must lie on ranks 3..6; without it no rank is excluded.
\<close>

definition landable :: "Square list \<Rightarrow> Color \<Rightarrow> bool \<Rightarrow> int \<times> int \<Rightarrow> bool" where
  "landable b color zone m =
     (inBounds (fst m) (snd m) \<and> (zone \<longrightarrow> inZone (snd m)) \<and>
      (case occupantAt b (fst m) (snd m) of
         Inr oc \<Rightarrow> oc = Empty \<or> enemyPiece color oc
       | Inl e \<Rightarrow> False))"

definition passable :: "Square list \<Rightarrow> bool \<Rightarrow> int \<times> int \<Rightarrow> bool" where
  "passable b zone m =
     (inBounds (fst m) (snd m) \<and> (zone \<longrightarrow> inZone (snd m)) \<and>
      (case occupantAt b (fst m) (snd m) of Inr oc \<Rightarrow> oc = Empty | Inl e \<Rightarrow> False))"

definition along :: "int \<Rightarrow> int \<Rightarrow> int \<times> int \<Rightarrow> nat \<Rightarrow> int \<times> int" where
  "along f0 r0 d n = (f0 + int n * fst d, r0 + int n * snd d)"

definition stepsTo :: "Square list \<Rightarrow> Color \<Rightarrow> bool \<Rightarrow> int \<Rightarrow> int \<Rightarrow> (int \<times> int) list
    \<Rightarrow> int \<times> int \<Rightarrow> bool" where
  "stepsTo b color zone f0 r0 deltas m =
     list_ex (\<lambda>d. m = along f0 r0 d 1 \<and> landable b color zone m) deltas"

definition slidesTo :: "Square list \<Rightarrow> Color \<Rightarrow> bool \<Rightarrow> int \<Rightarrow> int \<Rightarrow> (int \<times> int) list
    \<Rightarrow> int \<times> int \<Rightarrow> bool" where
  "slidesTo b color zone f0 r0 dirs m =
     list_ex (\<lambda>d. list_ex (\<lambda>n. m = along f0 r0 d n
                              \<and> list_all (\<lambda>k. passable b zone (along f0 r0 d k)) [1..<n]
                              \<and> landable b color zone m) [1..<9]) dirs"

definition pawnTo :: "Square list \<Rightarrow> Color \<Rightarrow> int \<Rightarrow> int \<Rightarrow> int \<times> int \<Rightarrow> bool" where
  "pawnTo b color f0 r0 m =
     (let r1 = r0 + (if color = White then -1 else 1) in
      (m = (f0, r1) \<and> passable b False m)
      \<or> ((m = (f0 - 1, r1) \<or> m = (f0 + 1, r1)) \<and> inBounds (fst m) (snd m)
          \<and> (case occupantAt b (fst m) (snd m) of Inr oc \<Rightarrow> enemyPiece color oc | Inl e \<Rightarrow> False)))"

definition geometryAllows :: "Square list \<Rightarrow> Color \<Rightarrow> bool \<Rightarrow> PieceType \<Rightarrow> int \<Rightarrow> int
    \<Rightarrow> int \<times> int \<Rightarrow> bool" where
  "geometryAllows b color zone t f0 r0 m =
     (case t of
        N \<Rightarrow> stepsTo b color zone f0 r0 knightDeltas m
      | K \<Rightarrow> stepsTo b color zone f0 r0 kingDeltas m
      | B \<Rightarrow> slidesTo b color zone f0 r0 bishopDirs m
      | R \<Rightarrow> slidesTo b color zone f0 r0 rookDirs m
      | Q \<Rightarrow> slidesTo b color zone f0 r0 queenDirs m
      | P \<Rightarrow> pawnTo b color f0 r0 m)"

section \<open>Properties\<close>

declare ray.simps [simp del] showNat.simps [simp del]

subsection \<open>Sequencing\<close>

lemma bindE_simps [simp]:
  "bindE (Inl e) f = Inl e"
  "bindE (Inr x) f = f x"
  by (simp_all add: bindE_def)

lemma bindE_Inr: "bindE m f = Inr y \<longleftrightarrow> (\<exists>x. m = Inr x \<and> f x = Inr y)"
  by (cases m) simp_all

subsection \<open>Destinations of the move generator\<close>

lemma canLand_True:
  "canLand b c zr nf nr = Inr True \<Longrightarrow> inBounds nf nr \<and> (zr \<longrightarrow> inZone nr)"
  by (auto simp: canLand_def split: if_splits)

lemma landAll_dest:
  "landAll b c zr f0 r0 ds = Inr ms \<Longrightarrow> m \<in> set ms \<Longrightarrow> inBounds (fst m) (snd m) \<and> (zr \<longrightarrow> inZone (snd m))"
proof (induction ds arbitrary: ms)
  case Nil
  then show ?case by simp
next
  case (Cons d ds)
  obtain df dr where d: "d = (df, dr)" by (cases d)
  from Cons.prems(1) obtain ok rest where
    ok: "canLand b c zr (f0 + df) (r0 + dr) = Inr ok" and
    rest: "landAll b c zr f0 r0 ds = Inr rest" and
    ms: "ms = (if ok then (f0 + df, r0 + dr) # rest else rest)"
    by (auto simp: d split: sum.splits)
  show ?case
  proof (cases "m \<in> set rest")
    case True
    with Cons.IH[OF rest] show ?thesis by simp
  next
    case False
    with Cons.prems(2) ms have "ok" "m = (f0 + df, r0 + dr)" by (auto split: if_splits)
    with ok canLand_True show ?thesis by auto
  qed
qed

lemma ray_dest:
  "ray b c zr df dr nf nr = Inr ms \<Longrightarrow> m \<in> set ms \<Longrightarrow> inBounds (fst m) (snd m) \<and> (zr \<longrightarrow> inZone (snd m))"
proof (induction b c zr df dr nf nr arbitrary: ms rule: ray.induct)
  case (1 b color zr df dr nf nr)
  show ?case
  proof (cases "inBounds nf nr \<and> (df, dr) \<noteq> (0, 0) \<and> \<not> (zr \<and> \<not> inZone nr)")
    case False
    with "1.prems" show ?thesis by (auto simp: ray.simps[of b color zr df dr nf nr] split: if_splits)
  next
    case True
    then have here: "inBounds nf nr" "zr \<longrightarrow> inZone nr" by auto
    from True "1.prems"(1) obtain oc where oc: "occupantAt b nf nr = Inr oc"
      by (auto simp: ray.simps[of b color zr df dr nf nr] split: if_splits sum.splits)
    show ?thesis
    proof (cases "oc = Empty")
      case True
      with \<open>inBounds nf nr \<and> (df, dr) \<noteq> (0, 0) \<and> \<not> (zr \<and> \<not> inZone nr)\<close> oc "1.prems"(1)
      obtain rest where rest: "ray b color zr df dr (nf + df) (nr + dr) = Inr rest"
        and ms: "ms = (nf, nr) # rest"
        by (auto simp: ray.simps[of b color zr df dr nf nr] split: if_splits sum.splits)
      show ?thesis
      proof (cases "m = (nf, nr)")
        case True
        with here show ?thesis by simp
      next
        case False
        with ms "1.prems"(2) have "m \<in> set rest" by simp
        from "1.IH"[OF _ _ oc True rest this] \<open>inBounds nf nr \<and> (df, dr) \<noteq> (0, 0) \<and> \<not> (zr \<and> \<not> inZone nr)\<close>
        show ?thesis by auto
      qed
    next
      case False
      with True oc "1.prems" have "m = (nf, nr)"
        by (cases oc) (auto simp: ray.simps[of b color zr df dr nf nr] split: if_splits sum.splits)
      with here show ?thesis by simp
    qed
  qed
qed

lemma pushRays_dest:
  "pushRays b c zr f0 r0 dirs = Inr ms \<Longrightarrow> m \<in> set ms \<Longrightarrow> inBounds (fst m) (snd m) \<and> (zr \<longrightarrow> inZone (snd m))"
proof (induction dirs arbitrary: ms)
  case Nil
  then show ?case by simp
next
  case (Cons d dirs)
  obtain df dr where d: "d = (df, dr)" by (cases d)
  from Cons.prems(1) obtain m1 m2 where
    m1: "ray b c zr df dr (f0 + df) (r0 + dr) = Inr m1" and
    m2: "pushRays b c zr f0 r0 dirs = Inr m2" and ms: "ms = m1 @ m2"
    by (auto simp: d split: sum.splits)
  from Cons.prems(2) ms consider "m \<in> set m1" | "m \<in> set m2" by auto
  then show ?case
  proof cases
    case 1
    with ray_dest[OF m1] show ?thesis by blast
  next
    case 2
    with Cons.IH[OF m2] show ?thesis by blast
  qed
qed

lemma pawnCaptures_dest:
  "pawnCaptures b c f0 nr dfs = Inr ms \<Longrightarrow> m \<in> set ms \<Longrightarrow> inBounds (fst m) (snd m)"
  by (induction dfs arbitrary: ms) (auto split: if_splits sum.splits)

lemma pawnMoves_dest:
  assumes "pawnMoves b c f0 r0 = Inr ms" and "m \<in> set ms"
  shows "inBounds (fst m) (snd m)"
proof -
  define dir :: int where "dir = (if c = White then -1 else 1)"
  from assms(1) obtain fwd caps where
    fwd: "(if inBounds f0 (r0 + dir)
           then (case findSquare b f0 (r0 + dir) of
                   None \<Rightarrow> Inl TypeError
                 | Some front \<Rightarrow> Inr (if occupant front = Empty then [(f0, r0 + dir)] else []))
           else Inr []) = Inr fwd"
    and caps: "pawnCaptures b c f0 (r0 + dir) [-1, 1] = Inr caps"
    and ms: "ms = fwd @ caps"
    unfolding pawnMoves_def Let_def dir_def bindE_Inr by blast
  from fwd have "\<forall>x \<in> set fwd. inBounds (fst x) (snd x)"
    by (auto split: if_splits option.splits)
  with pawnCaptures_dest[OF caps] assms(2) ms show ?thesis by auto
qed

subsection \<open>The example boards, evaluated once\<close>

lemma symbolBoard_code [code]:
  "symbolBoard =
     [
      \<lparr>id_sq = ''a1'', file_sq = 0, rank = 1, blueSymbol = None, occupant = Empty\<rparr>,
      \<lparr>id_sq = ''b1'', file_sq = 1, rank = 1, blueSymbol = None, occupant = Empty\<rparr>,
      \<lparr>id_sq = ''c1'', file_sq = 2, rank = 1, blueSymbol = None, occupant = Empty\<rparr>,
      \<lparr>id_sq = ''d1'', file_sq = 3, rank = 1, blueSymbol = None, occupant = Empty\<rparr>,
      \<lparr>id_sq = ''e1'', file_sq = 4, rank = 1, blueSymbol = None, occupant = Empty\<rparr>,
      \<lparr>id_sq = ''f1'', file_sq = 5, rank = 1, blueSymbol = None, occupant = Empty\<rparr>,
      \<lparr>id_sq = ''g1'', file_sq = 6, rank = 1, blueSymbol = None, occupant = Empty\<rparr>,
      \<lparr>id_sq = ''h1'', file_sq = 7, rank = 1, blueSymbol = None, occupant = Empty\<rparr>,
      \<lparr>id_sq = ''a2'', file_sq = 0, rank = 2, blueSymbol = None, occupant = Empty\<rparr>,
      \<lparr>id_sq = ''b2'', file_sq = 1, rank = 2, blueSymbol = None, occupant = Empty\<rparr>,
      \<lparr>id_sq = ''c2'', file_sq = 2, rank = 2, blueSymbol = None, occupant = Empty\<rparr>,
      \<lparr>id_sq = ''d2'', file_sq = 3, rank = 2, blueSymbol = None, occupant = Empty\<rparr>,
      \<lparr>id_sq = ''e2'', file_sq = 4, rank = 2, blueSymbol = None, occupant = Empty\<rparr>,
      \<lparr>id_sq = ''f2'', file_sq = 5, rank = 2, blueSymbol = None, occupant = Empty\<rparr>,
      \<lparr>id_sq = ''g2'', file_sq = 6, rank = 2, blueSymbol = None, occupant = Empty\<rparr>,
      \<lparr>id_sq = ''h2'', file_sq = 7, rank = 2, blueSymbol = None, occupant = Empty\<rparr>,
      \<lparr>id_sq = ''a3'', file_sq = 0, rank = 3, blueSymbol = Some K, occupant = Empty\<rparr>,
      \<lparr>id_sq = ''b3'', file_sq = 1, rank = 3, blueSymbol = Some K, occupant = Empty\<rparr>,
      \<lparr>id_sq = ''c3'', file_sq = 2, rank = 3, blueSymbol = Some Q, occupant = Empty\<rparr>,
      \<lparr>id_sq = ''d3'', file_sq = 3, rank = 3, blueSymbol = Some Q, occupant = Empty\<rparr>,
      \<lparr>id_sq = ''e3'', file_sq = 4, rank = 3, blueSymbol = Some R, occupant = Empty\<rparr>,
      \<lparr>id_sq = ''f3'', file_sq = 5, rank = 3, blueSymbol = Some R, occupant = Empty\<rparr>,
      \<lparr>id_sq = ''g3'', file_sq = 6, rank = 3, blueSymbol = Some R, occupant = Empty\<rparr>,
      \<lparr>id_sq = ''h3'', file_sq = 7, rank = 3, blueSymbol = Some R, occupant = Empty\<rparr>,
      \<lparr>id_sq = ''a4'', file_sq = 0, rank = 4, blueSymbol = Some B, occupant = Empty\<rparr>,
      \<lparr>id_sq = ''b4'', file_sq = 1, rank = 4, blueSymbol = Some B, occupant = Empty\<rparr>,
      \<lparr>id_sq = ''c4'', file_sq = 2, rank = 4, blueSymbol = Some B, occupant = Empty\<rparr>,
      \<lparr>id_sq = ''d4'', file_sq = 3, rank = 4, blueSymbol = Some B, occupant = Empty\<rparr>,
      \<lparr>id_sq = ''e4'', file_sq = 4, rank = 4, blueSymbol = Some N, occupant = Empty\<rparr>,
      \<lparr>id_sq = ''f4'', file_sq = 5, rank = 4, blueSymbol = Some N, occupant = Empty\<rparr>,
      \<lparr>id_sq = ''g4'', file_sq = 6, rank = 4, blueSymbol = Some N, occupant = Empty\<rparr>,
      \<lparr>id_sq = ''h4'', file_sq = 7, rank = 4, blueSymbol = Some N, occupant = Empty\<rparr>,
      \<lparr>id_sq = ''a5'', file_sq = 0, rank = 5, blueSymbol = Some P, occupant = Empty\<rparr>,
      \<lparr>id_sq = ''b5'', file_sq = 1, rank = 5, blueSymbol = Some P, occupant = Empty\<rparr>,
      \<lparr>id_sq = ''c5'', file_sq = 2, rank = 5, blueSymbol = Some P, occupant = Empty\<rparr>,
      \<lparr>id_sq = ''d5'', file_sq = 3, rank = 5, blueSymbol = Some P, occupant = Empty\<rparr>,
      \<lparr>id_sq = ''e5'', file_sq = 4, rank = 5, blueSymbol = Some P, occupant = Empty\<rparr>,
      \<lparr>id_sq = ''f5'', file_sq = 5, rank = 5, blueSymbol = Some P, occupant = Empty\<rparr>,
      \<lparr>id_sq = ''g5'', file_sq = 6, rank = 5, blueSymbol = Some P, occupant = Empty\<rparr>,
      \<lparr>id_sq = ''h5'', file_sq = 7, rank = 5, blueSymbol = Some P, occupant = Empty\<rparr>,
      \<lparr>id_sq = ''a6'', file_sq = 0, rank = 6, blueSymbol = Some P, occupant = Empty\<rparr>,
      \<lparr>id_sq = ''b6'', file_sq = 1, rank = 6, blueSymbol = Some P, occupant = Empty\<rparr>,
      \<lparr>id_sq = ''c6'', file_sq = 2, rank = 6, blueSymbol = Some P, occupant = Empty\<rparr>,
      \<lparr>id_sq = ''d6'', file_sq = 3, rank = 6, blueSymbol = Some P, occupant = Empty\<rparr>,
      \<lparr>id_sq = ''e6'', file_sq = 4, rank = 6, blueSymbol = Some P, occupant = Empty\<rparr>,
      \<lparr>id_sq = ''f6'', file_sq = 5, rank = 6, blueSymbol = Some P, occupant = Empty\<rparr>,
      \<lparr>id_sq = ''g6'', file_sq = 6, rank = 6, blueSymbol = Some P, occupant = Empty\<rparr>,
      \<lparr>id_sq = ''h6'', file_sq = 7, rank = 6, blueSymbol = Some P, occupant = Empty\<rparr>,
      \<lparr>id_sq = ''a7'', file_sq = 0, rank = 7, blueSymbol = None, occupant = Empty\<rparr>,
      \<lparr>id_sq = ''b7'', file_sq = 1, rank = 7, blueSymbol = None, occupant = Empty\<rparr>,
      \<lparr>id_sq = ''c7'', file_sq = 2, rank = 7, blueSymbol = None, occupant = Empty\<rparr>,
      \<lparr>id_sq = ''d7'', file_sq = 3, rank = 7, blueSymbol = None, occupant = Empty\<rparr>,
      \<lparr>id_sq = ''e7'', file_sq = 4, rank = 7, blueSymbol = None, occupant = Empty\<rparr>,
      \<lparr>id_sq = ''f7'', file_sq = 5, rank = 7, blueSymbol = None, occupant = Empty\<rparr>,
      \<lparr>id_sq = ''g7'', file_sq = 6, rank = 7, blueSymbol = None, occupant = Empty\<rparr>,
      \<lparr>id_sq = ''h7'', file_sq = 7, rank = 7, blueSymbol = None, occupant = Empty\<rparr>,
      \<lparr>id_sq = ''a8'', file_sq = 0, rank = 8, blueSymbol = None, occupant = Empty\<rparr>,
      \<lparr>id_sq = ''b8'', file_sq = 1, rank = 8, blueSymbol = None, occupant = Empty\<rparr>,
      \<lparr>id_sq = ''c8'', file_sq = 2, rank = 8, blueSymbol = None, occupant = Empty\<rparr>,
      \<lparr>id_sq = ''d8'', file_sq = 3, rank = 8, blueSymbol = None, occupant = Empty\<rparr>,
      \<lparr>id_sq = ''e8'', file_sq = 4, rank = 8, blueSymbol = None, occupant = Empty\<rparr>,
      \<lparr>id_sq = ''f8'', file_sq = 5, rank = 8, blueSymbol = None, occupant = Empty\<rparr>,
      \<lparr>id_sq = ''g8'', file_sq = 6, rank = 8, blueSymbol = None, occupant = Empty\<rparr>,
      \<lparr>id_sq = ''h8'', file_sq = 7, rank = 8, blueSymbol = None, occupant = Empty\<rparr>]"
  by code_simp

lemma startBoard:
  "createInitialBoard (\<lambda>i. 0) = Inr
     [
      \<lparr>id_sq = ''a1'', file_sq = 0, rank = 1, blueSymbol = None, occupant = Metamorph Black\<rparr>,
      \<lparr>id_sq = ''b1'', file_sq = 1, rank = 1, blueSymbol = None, occupant = Metamorph Black\<rparr>,
      \<lparr>id_sq = ''c1'', file_sq = 2, rank = 1, blueSymbol = None, occupant = Metamorph Black\<rparr>,
      \<lparr>id_sq = ''d1'', file_sq = 3, rank = 1, blueSymbol = None, occupant = Metamorph Black\<rparr>,
      \<lparr>id_sq = ''e1'', file_sq = 4, rank = 1, blueSymbol = None, occupant = Metamorph Black\<rparr>,
      \<lparr>id_sq = ''f1'', file_sq = 5, rank = 1, blueSymbol = None, occupant = Metamorph Black\<rparr>,
      \<lparr>id_sq = ''g1'', file_sq = 6, rank = 1, blueSymbol = None, occupant = Metamorph Black\<rparr>,
      \<lparr>id_sq = ''h1'', file_sq = 7, rank = 1, blueSymbol = None, occupant = Metamorph Black\<rparr>,
      \<lparr>id_sq = ''a2'', file_sq = 0, rank = 2, blueSymbol = None, occupant = Metamorph Black\<rparr>,
      \<lparr>id_sq = ''b2'', file_sq = 1, rank = 2, blueSymbol = None, occupant = Metamorph Black\<rparr>,
      \<lparr>id_sq = ''c2'', file_sq = 2, rank = 2, blueSymbol = None, occupant = Metamorph Black\<rparr>,
      \<lparr>id_sq = ''d2'', file_sq = 3, rank = 2, blueSymbol = None, occupant = Metamorph Black\<rparr>,
      \<lparr>id_sq = ''e2'', file_sq = 4, rank = 2, blueSymbol = None, occupant = Metamorph Black\<rparr>,
      \<lparr>id_sq = ''f2'', file_sq = 5, rank = 2, blueSymbol = None, occupant = Metamorph Black\<rparr>,
      \<lparr>id_sq = ''g2'', file_sq = 6, rank = 2, blueSymbol = None, occupant = Metamorph Black\<rparr>,
      \<lparr>id_sq = ''h2'', file_sq = 7, rank = 2, blueSymbol = None, occupant = Metamorph Black\<rparr>,
      \<lparr>id_sq = ''a3'', file_sq = 0, rank = 3, blueSymbol = Some K, occupant = Empty\<rparr>,
      \<lparr>id_sq = ''b3'', file_sq = 1, rank = 3, blueSymbol = Some Q, occupant = Empty\<rparr>,
      \<lparr>id_sq = ''c3'', file_sq = 2, rank = 3, blueSymbol = Some Q, occupant = Empty\<rparr>,
      \<lparr>id_sq = ''d3'', file_sq = 3, rank = 3, blueSymbol = Some R, occupant = Empty\<rparr>,
      \<lparr>id_sq = ''e3'', file_sq = 4, rank = 3, blueSymbol = Some R, occupant = Empty\<rparr>,
      \<lparr>id_sq = ''f3'', file_sq = 5, rank = 3, blueSymbol = Some R, occupant = Empty\<rparr>,
      \<lparr>id_sq = ''g3'', file_sq = 6, rank = 3, blueSymbol = Some R, occupant = Empty\<rparr>,
      \<lparr>id_sq = ''h3'', file_sq = 7, rank = 3, blueSymbol = Some B, occupant = Empty\<rparr>,
      \<lparr>id_sq = ''a4'', file_sq = 0, rank = 4, blueSymbol = Some B, occupant = Empty\<rparr>,
      \<lparr>id_sq = ''b4'', file_sq = 1, rank = 4, blueSymbol = Some B, occupant = Empty\<rparr>,
      \<lparr>id_sq = ''c4'', file_sq = 2, rank = 4, blueSymbol = Some B, occupant = Empty\<rparr>,
      \<lparr>id_sq = ''d4'', file_sq = 3, rank = 4, blueSymbol = Some N, occupant = Empty\<rparr>,
      \<lparr>id_sq = ''e4'', file_sq = 4, rank = 4, blueSymbol = Some N, occupant = Empty\<rparr>,
      \<lparr>id_sq = ''f4'', file_sq = 5, rank = 4, blueSymbol = Some N, occupant = Empty\<rparr>,
      \<lparr>id_sq = ''g4'', file_sq = 6, rank = 4, blueSymbol = Some N, occupant = Empty\<rparr>,
      \<lparr>id_sq = ''h4'', file_sq = 7, rank = 4, blueSymbol = Some P, occupant = Empty\<rparr>,
      \<lparr>id_sq = ''a5'', file_sq = 0, rank = 5, blueSymbol = Some P, occupant = Empty\<rparr>,
      \<lparr>id_sq = ''b5'', file_sq = 1, rank = 5, blueSymbol = Some P, occupant = Empty\<rparr>,
      \<lparr>id_sq = ''c5'', file_sq = 2, rank = 5, blueSymbol = Some P, occupant = Empty\<rparr>,
      \<lparr>id_sq = ''d5'', file_sq = 3, rank = 5, blueSymbol = Some P, occupant = Empty\<rparr>,
      \<lparr>id_sq = ''e5'', file_sq = 4, rank = 5, blueSymbol = Some P, occupant = Empty\<rparr>,
      \<lparr>id_sq = ''f5'', file_sq = 5, rank = 5, blueSymbol = Some P, occupant = Empty\<rparr>,
      \<lparr>id_sq = ''g5'', file_sq = 6, rank = 5, blueSymbol = Some P, occupant = Empty\<rparr>,
      \<lparr>id_sq = ''h5'', file_sq = 7, rank = 5, blueSymbol = Some P, occupant = Empty\<rparr>,
      \<lparr>id_sq = ''a6'', file_sq = 0, rank = 6, blueSymbol = Some P, occupant = Empty\<rparr>,
      \<lparr>id_sq = ''b6'', file_sq = 1, rank = 6, blueSymbol = Some P, occupant = Empty\<rparr>,
      \<lparr>id_sq = ''c6'', file_sq = 2, rank = 6, blueSymbol = Some P, occupant = Empty\<rparr>,
      \<lparr>id_sq = ''d6'', file_sq = 3, rank = 6, blueSymbol = Some P, occupant = Empty\<rparr>,
      \<lparr>id_sq = ''e6'', file_sq = 4, rank = 6, blueSymbol = Some P, occupant = Empty\<rparr>,
      \<lparr>id_sq = ''f6'', file_sq = 5, rank = 6, blueSymbol = Some P, occupant = Empty\<rparr>,
      \<lparr>id_sq = ''g6'', file_sq = 6, rank = 6, blueSymbol = Some P, occupant = Empty\<rparr>,
      \<lparr>id_sq = ''h6'', file_sq = 7, rank = 6, blueSymbol = Some K, occupant = Empty\<rparr>,
      \<lparr>id_sq = ''a7'', file_sq = 0, rank = 7, blueSymbol = None, occupant = Metamorph White\<rparr>,
      \<lparr>id_sq = ''b7'', file_sq = 1, rank = 7, blueSymbol = None, occupant = Metamorph White\<rparr>,
      \<lparr>id_sq = ''c7'', file_sq = 2, rank = 7, blueSymbol = None, occupant = Metamorph White\<rparr>,
      \<lparr>id_sq = ''d7'', file_sq = 3, rank = 7, blueSymbol = None, occupant = Metamorph White\<rparr>,
      \<lparr>id_sq = ''e7'', file_sq = 4, rank = 7, blueSymbol = None, occupant = Metamorph White\<rparr>,
      \<lparr>id_sq = ''f7'', file_sq = 5, rank = 7, blueSymbol = None, occupant = Metamorph White\<rparr>,
      \<lparr>id_sq = ''g7'', file_sq = 6, rank = 7, blueSymbol = None, occupant = Metamorph White\<rparr>,
      \<lparr>id_sq = ''h7'', file_sq = 7, rank = 7, blueSymbol = None, occupant = Metamorph White\<rparr>,
      \<lparr>id_sq = ''a8'', file_sq = 0, rank = 8, blueSymbol = None, occupant = Metamorph White\<rparr>,
      \<lparr>id_sq = ''b8'', file_sq = 1, rank = 8, blueSymbol = None, occupant = Metamorph White\<rparr>,
      \<lparr>id_sq = ''c8'', file_sq = 2, rank = 8, blueSymbol = None, occupant = Metamorph White\<rparr>,
      \<lparr>id_sq = ''d8'', file_sq = 3, rank = 8, blueSymbol = None, occupant = Metamorph White\<rparr>,
      \<lparr>id_sq = ''e8'', file_sq = 4, rank = 8, blueSymbol = None, occupant = Metamorph White\<rparr>,
      \<lparr>id_sq = ''f8'', file_sq = 5, rank = 8, blueSymbol = None, occupant = Metamorph White\<rparr>,
      \<lparr>id_sq = ''g8'', file_sq = 6, rank = 8, blueSymbol = None, occupant = Metamorph White\<rparr>,
      \<lparr>id_sq = ''h8'', file_sq = 7, rank = 8, blueSymbol = None, occupant = Metamorph White\<rparr>]"
  by code_simp

lemma startState_code [code]:
  "startState =
     \<lparr>board =
     [
      \<lparr>id_sq = ''a1'', file_sq = 0, rank = 1, blueSymbol = None, occupant = Metamorph Black\<rparr>,
      \<lparr>id_sq = ''b1'', file_sq = 1, rank = 1, blueSymbol = None, occupant = Metamorph Black\<rparr>,
      \<lparr>id_sq = ''c1'', file_sq = 2, rank = 1, blueSymbol = None, occupant = Metamorph Black\<rparr>,
      \<lparr>id_sq = ''d1'', file_sq = 3, rank = 1, blueSymbol = None, occupant = Metamorph Black\<rparr>,
      \<lparr>id_sq = ''e1'', file_sq = 4, rank = 1, blueSymbol = None, occupant = Metamorph Black\<rparr>,
      \<lparr>id_sq = ''f1'', file_sq = 5, rank = 1, blueSymbol = None, occupant = Metamorph Black\<rparr>,
      \<lparr>id_sq = ''g1'', file_sq = 6, rank = 1, blueSymbol = None, occupant = Metamorph Black\<rparr>,
      \<lparr>id_sq = ''h1'', file_sq = 7, rank = 1, blueSymbol = None, occupant = Metamorph Black\<rparr>,
      \<lparr>id_sq = ''a2'', file_sq = 0, rank = 2, blueSymbol = None, occupant = Metamorph Black\<rparr>,
      \<lparr>id_sq = ''b2'', file_sq = 1, rank = 2, blueSymbol = None, occupant = Metamorph Black\<rparr>,
      \<lparr>id_sq = ''c2'', file_sq = 2, rank = 2, blueSymbol = None, occupant = Metamorph Black\<rparr>,
      \<lparr>id_sq = ''d2'', file_sq = 3, rank = 2, blueSymbol = None, occupant = Metamorph Black\<rparr>,
      \<lparr>id_sq = ''e2'', file_sq = 4, rank = 2, blueSymbol = None, occupant = Metamorph Black\<rparr>,
      \<lparr>id_sq = ''f2'', file_sq = 5, rank = 2, blueSymbol = None, occupant = Metamorph Black\<rparr>,
      \<lparr>id_sq = ''g2'', file_sq = 6, rank = 2, blueSymbol = None, occupant = Metamorph Black\<rparr>,
      \<lparr>id_sq = ''h2'', file_sq = 7, rank = 2, blueSymbol = None, occupant = Metamorph Black\<rparr>,
      \<lparr>id_sq = ''a3'', file_sq = 0, rank = 3, blueSymbol = Some K, occupant = Empty\<rparr>,
      \<lparr>id_sq = ''b3'', file_sq = 1, rank = 3, blueSymbol = Some Q, occupant = Empty\<rparr>,
      \<lparr>id_sq = ''c3'', file_sq = 2, rank = 3, blueSymbol = Some Q, occupant = Empty\<rparr>,
      \<lparr>id_sq = ''d3'', file_sq = 3, rank = 3, blueSymbol = Some R, occupant = Empty\<rparr>,
      \<lparr>id_sq = ''e3'', file_sq = 4, rank = 3, blueSymbol = Some R, occupant = Empty\<rparr>,
      \<lparr>id_sq = ''f3'', file_sq = 5, rank = 3, blueSymbol = Some R, occupant = Empty\<rparr>,
      \<lparr>id_sq = ''g3'', file_sq = 6, rank = 3, blueSymbol = Some R, occupant = Empty\<rparr>,
      \<lparr>id_sq = ''h3'', file_sq = 7, rank = 3, blueSymbol = Some B, occupant = Empty\<rparr>,
      \<lparr>id_sq = ''a4'', file_sq = 0, rank = 4, blueSymbol = Some B, occupant = Empty\<rparr>,
      \<lparr>id_sq = ''b4'', file_sq = 1, rank = 4, blueSymbol = Some B, occupant = Empty\<rparr>,
      \<lparr>id_sq = ''c4'', file_sq = 2, rank = 4, blueSymbol = Some B, occupant = Empty\<rparr>,
      \<lparr>id_sq = ''d4'', file_sq = 3, rank = 4, blueSymbol = Some N, occupant = Empty\<rparr>,
      \<lparr>id_sq = ''e4'', file_sq = 4, rank = 4, blueSymbol = Some N, occupant = Empty\<rparr>,
      \<lparr>id_sq = ''f4'', file_sq = 5, rank = 4, blueSymbol = Some N, occupant = Empty\<rparr>,
      \<lparr>id_sq = ''g4'', file_sq = 6, rank = 4, blueSymbol = Some N, occupant = Empty\<rparr>,
      \<lparr>id_sq = ''h4'', file_sq = 7, rank = 4, blueSymbol = Some P, occupant = Empty\<rparr>,
      \<lparr>id_sq = ''a5'', file_sq = 0, rank = 5, blueSymbol = Some P, occupant = Empty\<rparr>,
      \<lparr>id_sq = ''b5'', file_sq = 1, rank = 5, blueSymbol = Some P, occupant = Empty\<rparr>,
      \<lparr>id_sq = ''c5'', file_sq = 2, rank = 5, blueSymbol = Some P, occupant = Empty\<rparr>,
      \<lparr>id_sq = ''d5'', file_sq = 3, rank = 5, blueSymbol = Some P, occupant = Empty\<rparr>,
      \<lparr>id_sq = ''e5'', file_sq = 4, rank = 5, blueSymbol = Some P, occupant = Empty\<rparr>,
      \<lparr>id_sq = ''f5'', file_sq = 5, rank = 5, blueSymbol = Some P, occupant = Empty\<rparr>,
      \<lparr>id_sq = ''g5'', file_sq = 6, rank = 5, blueSymbol = Some P, occupant = Empty\<rparr>,
      \<lparr>id_sq = ''h5'', file_sq = 7, rank = 5, blueSymbol = Some P, occupant = Empty\<rparr>,
      \<lparr>id_sq = ''a6'', file_sq = 0, rank = 6, blueSymbol = Some P, occupant = Empty\<rparr>,
      \<lparr>id_sq = ''b6'', file_sq = 1, rank = 6, blueSymbol = Some P, occupant = Empty\<rparr>,
      \<lparr>id_sq = ''c6'', file_sq = 2, rank = 6, blueSymbol = Some P, occupant = Empty\<rparr>,
      \<lparr>id_sq = ''d6'', file_sq = 3, rank = 6, blueSymbol = Some P, occupant = Empty\<rparr>,
      \<lparr>id_sq = ''e6'', file_sq = 4, rank = 6, blueSymbol = Some P, occupant = Empty\<rparr>,
      \<lparr>id_sq = ''f6'', file_sq = 5, rank = 6, blueSymbol = Some P, occupant = Empty\<rparr>,
      \<lparr>id_sq = ''g6'', file_sq = 6, rank = 6, blueSymbol = Some P, occupant = Empty\<rparr>,
      \<lparr>id_sq = ''h6'', file_sq = 7, rank = 6, blueSymbol = Some K, occupant = Empty\<rparr>,
      \<lparr>id_sq = ''a7'', file_sq = 0, rank = 7, blueSymbol = None, occupant = Metamorph White\<rparr>,
      \<lparr>id_sq = ''b7'', file_sq = 1, rank = 7, blueSymbol = None, occupant = Metamorph White\<rparr>,
      \<lparr>id_sq = ''c7'', file_sq = 2, rank = 7, blueSymbol = None, occupant = Metamorph White\<rparr>,
      \<lparr>id_sq = ''d7'', file_sq = 3, rank = 7, blueSymbol = None, occupant = Metamorph White\<rparr>,
      \<lparr>id_sq = ''e7'', file_sq = 4, rank = 7, blueSymbol = None, occupant = Metamorph White\<rparr>,
      \<lparr>id_sq = ''f7'', file_sq = 5, rank = 7, blueSymbol = None, occupant = Metamorph White\<rparr>,
      \<lparr>id_sq = ''g7'', file_sq = 6, rank = 7, blueSymbol = None, occupant = Metamorph White\<rparr>,
      \<lparr>id_sq = ''h7'', file_sq = 7, rank = 7, blueSymbol = None, occupant = Metamorph White\<rparr>,
      \<lparr>id_sq = ''a8'', file_sq = 0, rank = 8, blueSymbol = None, occupant = Metamorph White\<rparr>,
      \<lparr>id_sq = ''b8'', file_sq = 1, rank = 8, blueSymbol = None, occupant = Metamorph White\<rparr>,
      \<lparr>id_sq = ''c8'', file_sq = 2, rank = 8, blueSymbol = None, occupant = Metamorph White\<rparr>,
      \<lparr>id_sq = ''d8'', file_sq = 3, rank = 8, blueSymbol = None, occupant = Metamorph White\<rparr>,
      \<lparr>id_sq = ''e8'', file_sq = 4, rank = 8, blueSymbol = None, occupant = Metamorph White\<rparr>,
      \<lparr>id_sq = ''f8'', file_sq = 5, rank = 8, blueSymbol = None, occupant = Metamorph White\<rparr>,
      \<lparr>id_sq = ''g8'', file_sq = 6, rank = 8, blueSymbol = None, occupant = Metamorph White\<rparr>,
      \<lparr>id_sq = ''h8'', file_sq = 7, rank = 8, blueSymbol = None, occupant = Metamorph White\<rparr>],
      turn = White, moveNumber = 1,
      stock = (\<lambda>c. emptyStock), quietus = (\<lambda>c. zeroStock),
      kingOnBoard = (\<lambda>c. False), kingProtectedUntil = (\<lambda>c. None),
      selected = None, promotion = None, message = None, winner = None,
      winReason = None,
      ai = \<lparr>mode = Human, cpuPlays = Black, level = Medium\<rparr>,
      lastMove = None\<rparr>"
  by (simp add: startState_def initialGame_def startBoard)

subsection \<open>The example traces, evaluated once\<close>

lemma fields_eq: "(\<And>c t. fields g c t = fields g' c t) \<Longrightarrow> g = g'"
proof (rule GameState.equality)
  assume a: "\<And>c t. fields g c t = fields g' c t"
  from a[of White K] show "board g = board g'" "turn g = turn g'" "moveNumber g = moveNumber g'"
    "selected g = selected g'" "promotion g = promotion g'" "message g = message g'"
    "winner g = winner g'" "winReason g = winReason g'" "ai g = ai g'" "lastMove g = lastMove g'"
    by (simp_all add: fields_def)
  from a show "stock g = stock g'" by (intro ext) (simp add: fields_def)
  from a show "quietus g = quietus g'" by (intro ext) (simp add: fields_def)
  from a[of _ K] show "kingOnBoard g = kingOnBoard g'" by (intro ext) (simp add: fields_def)
  from a[of _ K] show "kingProtectedUntil g = kingProtectedUntil g'" by (intro ext) (simp add: fields_def)
  show "GameState.more g = GameState.more g'" by simp
qed

lemma promoJustSet_code [code]:
  "promoJustSet =
     (stateOf (place ''a1'' (Piece White P 3 False None) (place ''h7'' (Metamorph White) (place ''h2'' (Metamorph Black) symbolBoard))))\<lparr>turn := Black, moveNumber := 6, promotion := Some (''a1'', White), lastMove := Some (''a2'', ''a1'', White)\<rparr>"
  by (rule fields_eq) code_simp

lemma promoPending_code [code]:
  "promoPending =
     (stateOf (place ''a1'' (Piece White P 3 False None) (place ''h7'' (Metamorph White) (place ''h3'' (Metamorph Black) symbolBoard))))\<lparr>turn := White, moveNumber := 7, promotion := Some (''a1'', White), lastMove := Some (''h2'', ''h3'', Black)\<rparr>"
  by (rule fields_eq) code_simp

lemma loanFresh_code [code]:
  "loanFresh =
     (stateOf (place ''a1'' (Piece White Q 6 True (Some 7)) (place ''h7'' (Metamorph White) (place ''h2'' (Metamorph Black) symbolBoard))))\<lparr>turn := Black, moveNumber := 6, lastMove := Some (''a2'', ''a1'', White)\<rparr>"
  by (rule fields_eq) code_simp

lemma loanAtDeadline_code [code]:
  "loanAtDeadline =
     (stateOf (place ''a1'' (Piece White Q 6 True (Some 7)) (place ''h7'' (Metamorph White) (place ''h3'' (Metamorph Black) symbolBoard))))\<lparr>turn := White, moveNumber := 7, lastMove := Some (''h2'', ''h3'', Black)\<rparr>"
  by (rule fields_eq) code_simp

lemma loanGone_code [code]:
  "loanGone =
     (stateOf (place ''h6'' (Metamorph White) (place ''h3'' (Metamorph Black) symbolBoard)))\<lparr>turn := Black, moveNumber := 8, lastMove := Some (''h7'', ''h6'', White)\<rparr>"
  by (rule fields_eq) code_simp

lemma mated_code [code]:
  "mated = (stateOf (place ''a3'' (Piece Black K 2 False None)
                 (place ''a4'' (Piece Black P 3 False None)
                 (place ''b3'' (Piece Black P 4 False None)
                 (place ''c3'' (Piece White B 5 False None)
                 (place ''b5'' (Piece White N 6 False None)
                 (place ''g3'' (Piece White K 7 False None) symbolBoard)))))))
               \<lparr>turn := Black, moveNumber := 11, kingOnBoard := (\<lambda>c. True),
                lastMove := Some (''d4'', ''b5'', White),
                winner := Some White, winReason := Some ''checkmate'',
                message := Some ''Winner: white (checkmate)''\<rparr>"
  by (rule fields_eq) code_simp

lemma kingDuelReply_code [code]:
  "kingDuelReply = (stateOf (place ''e4'' (Piece White K 3 False None)
                 (place ''e6'' (Piece Black R 2 False None)
                 (place ''a6'' (Piece Black K 1 False None) symbolBoard))))
               \<lparr>turn := White, moveNumber := 5, kingOnBoard := (\<lambda>c. True),
                kingProtectedUntil := (\<lambda>c. if c = White then Some 4 else None),
                lastMove := Some (''a5'', ''a6'', Black)\<rparr>"
  by (rule fields_eq) code_simp

lemma kingDuelOpen_code [code]:
  "kingDuelOpen = (stateOf (place ''e5'' (Piece White K 3 False None)
                 (place ''e6'' (Piece Black R 2 False None)
                 (place ''a6'' (Piece Black K 1 False None) symbolBoard))))
               \<lparr>turn := Black, moveNumber := 6, kingOnBoard := (\<lambda>c. True),
                kingProtectedUntil := (\<lambda>c. if c = White then Some 4 else None),
                lastMove := Some (''e4'', ''e5'', White)\<rparr>"
  by (rule fields_eq) code_simp

subsection \<open>Initial setup\<close>

lemma initialBag_eq:
  "initialBag = [K, K, Q, Q, R, R, R, R, B, B, B, B, N, N, N, N,
                 P, P, P, P, P, P, P, P, P, P, P, P, P, P, P, P]"
  by (simp add: initialBag_def entries_def emptyStock_def numeral_eq_Suc)

lemma swap_props:
  "i < length xs \<Longrightarrow> j < length xs \<Longrightarrow> mset (swap i j xs) = mset xs \<and> length (swap i j xs) = length xs"
  by (simp add: swap_def mset_swap)

lemma draw_le:
  assumes "0 \<le> (u::real)" "u < 1"
  shows "nat \<lfloor>u * (real n + 1)\<rfloor> \<le> n"
proof -
  have "u * (real n + 1) < real n + 1" using assms by (simp add: mult_less_cancel_right1)
  then have "\<lfloor>u * (real n + 1)\<rfloor> \<le> int n" unfolding floor_le_iff by simp
  then show ?thesis by linarith
qed

lemma shuffleLoop_props:
  assumes "\<forall>i. 0 \<le> rnd i \<and> rnd i < 1"
  shows "i < length bag \<Longrightarrow> mset (shuffleLoop rnd i bag) = mset bag \<and> length (shuffleLoop rnd i bag) = length bag"
proof (induction i arbitrary: bag)
  case 0
  then show ?case by simp
next
  case (Suc i)
  let ?j = "nat \<lfloor>rnd (Suc i) * (real (Suc i) + 1)\<rfloor>"
  have "?j \<le> Suc i" using assms draw_le by blast
  with Suc.prems have j: "?j < length bag" by simp
  from swap_props[OF Suc.prems j] Suc.IH[of "swap (Suc i) ?j bag"] Suc.prems
  show ?case by (simp add: Let_def)
qed

lemma shuffledBag_props:
  assumes "\<forall>i. 0 \<le> rnd i \<and> rnd i < 1"
  shows "mset (shuffledBag rnd) = mset initialBag" "length (shuffledBag rnd) = 32"
  using shuffleLoop_props[OF assms, of "length initialBag - 1" initialBag]
  by (simp_all add: shuffledBag_def initialBag_eq)

lemma nth32:
  assumes "length (xs::'a list) = 32"
  shows "[xs!0, xs!1, xs!2, xs!3, xs!4, xs!5, xs!6, xs!7, xs!8, xs!9, xs!10, xs!11, xs!12, xs!13, xs!14, xs!15,
          xs!16, xs!17, xs!18, xs!19, xs!20, xs!21, xs!22, xs!23, xs!24, xs!25, xs!26, xs!27, xs!28, xs!29, xs!30, xs!31] = xs"
proof -
  have "map (nth xs) [0..<32] = xs" using assms map_nth[of xs] by simp
  moreover have "[0..<32] = [0,1,2,3,4,5,6,7,8,9,10,11,12,13,14,15,16,17,18,19,20,21,22,23,24,25,26,27,28,29,30,31]"
    by code_simp
  ultimately show ?thesis by simp
qed

lemma createInitialBoard_closed32:
  "bindE (assignSymbols [b0, b1, b2, b3, b4, b5, b6, b7, b8, b9, b10, b11, b12, b13, b14, b15, b16, b17, b18, b19, b20, b21, b22, b23, b24, b25, b26, b27, b28, b29, b30, b31] 0 (coords [3, 4, 5, 6]) blankBoard) (\<lambda>b1.
       bindE (fillMetamorphs Black (coords [1, 2]) b1) (\<lambda>b2.
         fillMetamorphs White (coords [7, 8]) b2)) = Inr (setupBoard [b0, b1, b2, b3, b4, b5, b6, b7, b8, b9, b10, b11, b12, b13, b14, b15, b16, b17, b18, b19, b20, b21, b22, b23, b24, b25, b26, b27, b28, b29, b30, b31])"
  by code_simp

lemma createInitialBoard_closed:
  assumes "length bag = 32"
  shows "bindE (assignSymbols bag 0 (coords [3, 4, 5, 6]) blankBoard) (\<lambda>b1.
       bindE (fillMetamorphs Black (coords [1, 2]) b1) (\<lambda>b2.
         fillMetamorphs White (coords [7, 8]) b2)) = Inr (setupBoard bag)"
  using createInitialBoard_closed32[of "bag!0" "bag!1" "bag!2" "bag!3" "bag!4" "bag!5" "bag!6" "bag!7"
      "bag!8" "bag!9" "bag!10" "bag!11" "bag!12" "bag!13" "bag!14" "bag!15"
      "bag!16" "bag!17" "bag!18" "bag!19" "bag!20" "bag!21" "bag!22" "bag!23"
      "bag!24" "bag!25" "bag!26" "bag!27" "bag!28" "bag!29" "bag!30" "bag!31"]
  unfolding nth32[OF assms] .

lemma setupBoard_symbols:
  assumes "length bag = 32"
  shows "map blueSymbol (filter (\<lambda>s. inZone (rank s)) (setupBoard bag)) = map Some bag"
proof -
  have "map blueSymbol (filter (\<lambda>s. inZone (rank s)) (setupBoard bag)) =
        map Some [bag!0, bag!1, bag!2, bag!3, bag!4, bag!5, bag!6, bag!7, bag!8, bag!9, bag!10, bag!11, bag!12, bag!13, bag!14, bag!15,
          bag!16, bag!17, bag!18, bag!19, bag!20, bag!21, bag!22, bag!23, bag!24, bag!25, bag!26, bag!27, bag!28, bag!29, bag!30, bag!31]"
    by (simp add: setupBoard_def coords_def RANKS_def inZone_def)
  with nth32[OF assms] show ?thesis by simp
qed

lemma setupBoard_occupants:
  "\<forall>s \<in> set (setupBoard bag).
      occupant s = (if rank s \<le> 2 then Metamorph Black else if rank s \<ge> 7 then Metamorph White else Empty)
      \<and> ((blueSymbol s \<noteq> None) = inZone (rank s))"
  by (simp add: setupBoard_def coords_def RANKS_def inZone_def)

lemma setupBoard_counts:
  "length (setupBoard bag) = 64"
  "length (filter (\<lambda>s. occupant s = Metamorph Black) (setupBoard bag)) = 16"
  "length (filter (\<lambda>s. occupant s = Metamorph White) (setupBoard bag)) = 16"
  "length (filter (\<lambda>s. inZone (rank s)) (setupBoard bag)) = 32"
  by (simp_all add: setupBoard_def coords_def RANKS_def inZone_def)

lemma bag_mset: "mset initialBag = repeat_mset 2 {#K, Q, R, R, B, B, N, N, P, P, P, P, P, P, P, P#}"
  by (simp add: initialBag_eq numeral_eq_Suc)

text \<open>
  Claim C9. Whatever \<^verbatim>\<open>Math.random\<close> draws (values in \<open>[0, 1)\<close>), \<^verbatim>\<open>initialGame\<close>
  returns a state on the 64 squares in rank-major order; the 16 squares of ranks 1--2
  hold black metamorphs and the 16 squares of ranks 7--8 white ones, so 32 metamorphs
  in all; exactly the 32 squares of ranks 3..6 carry a symbol, and these symbols are,
  as a multiset, two copies of K, Q, 2 R, 2 B, 2 N, 8 P; White is to move at move 1,
  the stock is at the initial caps, the quietus is empty.
\<close>

theorem initialGame_setup:
  assumes "\<forall>i. 0 \<le> rnd i \<and> rnd i < 1"
  shows "\<exists>g. initialGame rnd = Inr g
    \<and> length (board g) = 64
    \<and> map (\<lambda>s. (id_sq s, file_sq s, rank s)) (board g) = map (\<lambda>(r, f). (idFrom f r, f, r)) (coords RANKS)
    \<and> (\<forall>s \<in> set (board g).
          occupant s = (if rank s \<le> 2 then Metamorph Black
                        else if rank s \<ge> 7 then Metamorph White else Empty)
          \<and> ((blueSymbol s \<noteq> None) = inZone (rank s)))
    \<and> length (filter (\<lambda>s. occupant s = Metamorph Black) (board g)) = 16
    \<and> length (filter (\<lambda>s. occupant s = Metamorph White) (board g)) = 16
    \<and> length (filter (\<lambda>s. inZone (rank s)) (board g)) = 32
    \<and> mset (map blueSymbol (filter (\<lambda>s. inZone (rank s)) (board g)))
        = image_mset Some (repeat_mset 2 {#K, Q, R, R, B, B, N, N, P, P, P, P, P, P, P, P#})
    \<and> turn g = White \<and> moveNumber g = 1
    \<and> (\<forall>c t. stock g c t = INITIAL_COUNTS t) \<and> (\<forall>c t. quietus g c t = 0)
    \<and> winner g = None \<and> promotion g = None"
proof -
  let ?bag = "shuffledBag rnd"
  have len: "length ?bag = 32" and ms: "mset ?bag = mset initialBag"
    using shuffledBag_props[OF assms] by simp_all
  have b: "createInitialBoard rnd = Inr (setupBoard ?bag)"
    unfolding createInitialBoard_def by (rule createInitialBoard_closed[OF len])
  have geo: "map (\<lambda>s. (id_sq s, file_sq s, rank s)) (setupBoard ?bag) = map (\<lambda>(r, f). (idFrom f r, f, r)) (coords RANKS)"
    by (simp add: setupBoard_def split_def)
  have sym: "mset (map blueSymbol (filter (\<lambda>s. inZone (rank s)) (setupBoard ?bag)))
        = image_mset Some (repeat_mset 2 {#K, Q, R, R, B, B, N, N, P, P, P, P, P, P, P, P#})"
    unfolding setupBoard_symbols[OF len] using ms bag_mset by (metis mset_map)
  show ?thesis
    using b geo sym setupBoard_occupants[of ?bag] setupBoard_counts[of ?bag]
    by (simp add: initialGame_def emptyStock_def INITIAL_COUNTS_def zeroStock_def)
qed


theorem initialGame_setup_witness:
  "\<exists>g. initialGame (\<lambda>i. 0) = Inr g \<and> length (board g) = 64 \<and> turn g = White
       \<and> moveNumber g = 1 \<and> stock g White P = 8 \<and> quietus g Black K = 0"
proof -
  have h: "\<forall>i::nat. 0 \<le> (\<lambda>i. 0::real) i \<and> (\<lambda>i. 0::real) i < 1" by simp
  from initialGame_setup[OF h] obtain g where
    g: "initialGame (\<lambda>i. 0) = Inr g" "length (board g) = 64" "turn g = White" "moveNumber g = 1"
       "\<forall>c t. stock g c t = INITIAL_COUNTS t" "\<forall>c t. quietus g c t = 0"
    by blast
  then show ?thesis by (auto simp: INITIAL_COUNTS_def)
qed

subsection \<open>Lookups never fail on a well-formed board\<close>

lemma findIndex_Some:
  "findIndex p xs = Some i \<Longrightarrow> i < length xs \<and> p (xs ! i) \<and> find p xs = Some (xs ! i)"
proof (induction xs arbitrary: i)
  case Nil
  then show ?case by simp
next
  case (Cons x xs)
  then show ?case by (cases "p x") auto
qed

lemma findIndex_None: "findIndex p xs = None \<longleftrightarrow> (\<forall>x \<in> set xs. \<not> p x)"
  by (induction xs) auto

lemma findIndex_ex: "(\<exists>x \<in> set xs. p x) \<Longrightarrow> \<exists>i. findIndex p xs = Some i"
  using findIndex_None[of p xs] by (cases "findIndex p xs") auto

lemma find_ex: "(\<exists>x \<in> set xs. p x) \<Longrightarrow> \<exists>y. find p xs = Some y"
  by (cases "find p xs") (auto simp: find_None_iff)

lemma geometry_coords:
  "geometry b = geometry b' \<Longrightarrow> (\<lambda>s. (file_sq s, rank s)) ` set b = (\<lambda>s. (file_sq s, rank s)) ` set b'"
proof -
  assume "geometry b = geometry b'"
  then have "map (\<lambda>t. (fst (snd t), snd (snd t))) (geometry b) = map (\<lambda>t. (fst (snd t), snd (snd t))) (geometry b')"
    by simp
  then have "map (\<lambda>s. (file_sq s, rank s)) b = map (\<lambda>s. (file_sq s, rank s)) b'"
    by (simp add: geometry_def comp_def)
  then have "set (map (\<lambda>s. (file_sq s, rank s)) b) = set (map (\<lambda>s. (file_sq s, rank s)) b')" by simp
  then show ?thesis by simp
qed

lemma geometry_ids:
  "geometry b = geometry b' \<Longrightarrow> id_sq ` set b = id_sq ` set b'"
proof -
  assume "geometry b = geometry b'"
  then have "map fst (geometry b) = map fst (geometry b')" by simp
  then have "map id_sq b = map id_sq b'" by (simp add: geometry_def comp_def)
  then have "set (map id_sq b) = set (map id_sq b')" by simp
  then show ?thesis by simp
qed

lemma complete_iff: "complete b \<longleftrightarrow> (\<forall>f r. inBounds f r \<longrightarrow> (f, r) \<in> (\<lambda>s. (file_sq s, rank s)) ` set b)"
  unfolding complete_def findSquare_def find_None_iff by (auto simp: image_iff) 

lemma complete_geometry: "geometry b = geometry b' \<Longrightarrow> complete b = complete b'"
  unfolding complete_iff using geometry_coords[of b b'] by simp

lemma grid_mem:
  "r \<in> set rs \<Longrightarrow> f \<in> set fs \<Longrightarrow> h f r \<in> set (concat (map (\<lambda>r. map (\<lambda>f. h f r) fs) rs))"
  by auto

lemma file_cases: "0 \<le> (f::int) \<Longrightarrow> f < 8 \<Longrightarrow> f \<in> set [0, 1, 2, 3, 4, 5, 6, 7]"
proof -
  assume "0 \<le> f" "f < 8"
  then have "f = 0 \<or> f = 1 \<or> f = 2 \<or> f = 3 \<or> f = 4 \<or> f = 5 \<or> f = 6 \<or> f = 7" by arith
  then show ?thesis by simp
qed

lemma rank_cases: "1 \<le> (r::int) \<Longrightarrow> r \<le> 8 \<Longrightarrow> r \<in> set RANKS"
proof -
  assume "1 \<le> r" "r \<le> 8"
  then have "r = 1 \<or> r = 2 \<or> r = 3 \<or> r = 4 \<or> r = 5 \<or> r = 6 \<or> r = 7 \<or> r = 8" by arith
  then show ?thesis by (simp add: RANKS_def)
qed

lemma complete_blank: "complete blankBoard"
proof -
  have "(f, r) \<in> (\<lambda>s. (file_sq s, rank s)) ` set blankBoard" if "inBounds f r" for f r
  proof -
    from that have "0 \<le> f" "f < 8" "1 \<le> r" "r \<le> 8" by (simp_all add: inBounds_def)
    then have f: "f \<in> set [0, 1, 2, 3, 4, 5, 6, 7]" and r: "r \<in> set RANKS"
      by (simp_all only: file_cases rank_cases)
    have "\<lparr>id_sq = idFrom f r, file_sq = f, rank = r, blueSymbol = None, occupant = Empty\<rparr> \<in> set blankBoard"
      unfolding blankBoard_def by (rule grid_mem[OF r f])
    then have "(\<lambda>s. (file_sq s, rank s)) \<lparr>id_sq = idFrom f r, file_sq = f, rank = r, blueSymbol = None, occupant = Empty\<rparr>
                 \<in> (\<lambda>s. (file_sq s, rank s)) ` set blankBoard"
      by (rule imageI)
    then show ?thesis by simp
  qed
  then show ?thesis unfolding complete_iff by blast
qed

lemma wellFormed_complete: "wellFormed b \<Longrightarrow> complete b"
  using complete_geometry[of b blankBoard] complete_blank unfolding wellFormed_def by blast

lemma wellFormed_findIndex:
  assumes "wellFormed b" "sid \<in> set squareIds"
  shows "\<exists>i. findIndex (\<lambda>s. id_sq s = sid) b = Some i"
proof -
  from assms(1) have "id_sq ` set b = id_sq ` set blankBoard"
    unfolding wellFormed_def by (rule geometry_ids)
  moreover from assms(2) have "sid \<in> id_sq ` set blankBoard" by (simp add: squareIds_def)
  ultimately have "sid \<in> id_sq ` set b" by simp
  then have "\<exists>s \<in> set b. id_sq s = sid" by blast
  then show ?thesis by (rule findIndex_ex)
qed


lemma complete_find:
  "complete b \<Longrightarrow> inBounds f r \<Longrightarrow> \<exists>s. findSquare b f r = Some s"
  by (auto simp: complete_def)

lemma occupantAt_total:
  "complete b \<Longrightarrow> inBounds f r \<Longrightarrow> \<exists>oc. occupantAt b f r = Inr oc"
  using complete_find[of b f r] by (auto simp: occupantAt_def)

lemma canLand_total: "complete b \<Longrightarrow> \<exists>x. canLand b c zr f r = Inr x"
  using occupantAt_total[of b f r] by (auto simp: canLand_def)

lemma landAll_total: "complete b \<Longrightarrow> \<exists>ms. landAll b c zr f0 r0 ds = Inr ms"
proof (induction ds)
  case Nil
  then show ?case by simp
next
  case (Cons d ds)
  obtain df dr where d: "d = (df, dr)" by (cases d)
  from Cons obtain ms where "landAll b c zr f0 r0 ds = Inr ms" by blast
  moreover from Cons.prems obtain x where "canLand b c zr (f0 + df) (r0 + dr) = Inr x"
    using canLand_total by blast
  ultimately show ?case by (simp add: d)
qed

lemma ray_total: "complete b \<Longrightarrow> \<exists>ms. ray b c zr df dr nf nr = Inr ms"
proof (induction b c zr df dr nf nr rule: ray.induct)
  case (1 b color zr df dr nf nr)
  show ?case
  proof (cases "inBounds nf nr \<and> (df, dr) \<noteq> (0, 0) \<and> \<not> (zr \<and> \<not> inZone nr)")
    case False
    then show ?thesis by (auto simp: ray.simps[of b color zr df dr nf nr])
  next
    case True
    with "1.prems" obtain oc where oc: "occupantAt b nf nr = Inr oc"
      using occupantAt_total by blast
    show ?thesis
    proof (cases "oc = Empty")
      case e: True
      from "1.IH"[OF _ _ oc e "1.prems"] True
      obtain ms where "ray b color zr df dr (nf + df) (nr + dr) = Inr ms" by auto
      with True oc e show ?thesis by (simp add: ray.simps[of b color zr df dr nf nr])
    next
      case False
      with True oc show ?thesis
        by (cases oc) (simp_all add: ray.simps[of b color zr df dr nf nr])
    qed
  qed
qed

lemma pushRays_total: "complete b \<Longrightarrow> \<exists>ms. pushRays b c zr f0 r0 dirs = Inr ms"
proof (induction dirs)
  case Nil
  then show ?case by simp
next
  case (Cons d dirs)
  obtain df dr where d: "d = (df, dr)" by (cases d)
  from Cons obtain ms where "pushRays b c zr f0 r0 dirs = Inr ms" by blast
  moreover from Cons.prems obtain m1 where "ray b c zr df dr (f0 + df) (r0 + dr) = Inr m1"
    using ray_total by blast
  ultimately show ?case by (simp add: d)
qed

lemma pawnCaptures_total: "complete b \<Longrightarrow> \<exists>ms. pawnCaptures b c f0 nr dfs = Inr ms"
proof (induction dfs)
  case Nil
  then show ?case by simp
next
  case (Cons df dfs)
  from Cons obtain ms where ms: "pawnCaptures b c f0 nr dfs = Inr ms" by blast
  show ?case
  proof (cases "inBounds (f0 + df) nr")
    case True
    with Cons.prems obtain oc where "occupantAt b (f0 + df) nr = Inr oc"
      using occupantAt_total by blast
    with True ms show ?thesis by simp
  next
    case False
    with ms show ?thesis by simp
  qed
qed

lemma pawnMoves_total:
  assumes "complete b"
  shows "\<exists>ms. pawnMoves b c f0 r0 = Inr ms"
proof -
  define dir :: int where "dir = (if c = White then -1 else 1)"
  obtain caps where caps: "pawnCaptures b c f0 (r0 + dir) [-1, 1] = Inr caps"
    using pawnCaptures_total[OF assms] by blast
  have "\<exists>fwd. (if inBounds f0 (r0 + dir)
           then (case findSquare b f0 (r0 + dir) of
                   None \<Rightarrow> Inl TypeError
                 | Some front \<Rightarrow> Inr (if occupant front = Empty then [(f0, r0 + dir)] else []))
           else Inr []) = Inr fwd"
    using complete_find[OF assms, of f0 "r0 + dir"] by auto
  then obtain fwd where "(if inBounds f0 (r0 + dir)
           then (case findSquare b f0 (r0 + dir) of
                   None \<Rightarrow> Inl TypeError
                 | Some front \<Rightarrow> Inr (if occupant front = Empty then [(f0, r0 + dir)] else []))
           else Inr []) = Inr fwd" by blast
  with caps show ?thesis
    unfolding pawnMoves_def Let_def dir_def[symmetric] by simp
qed

lemma legalMovesForPiece_total:
  assumes "complete (board gs)" "occupant sq \<noteq> Empty"
  shows "\<exists>ms. legalMovesForPiece gs sq = Inr ms"
proof (cases "occupant sq")
  case Empty
  with assms show ?thesis by simp
next
  case (Metamorph c)
  then show ?thesis by (simp add: legalMovesForPiece_def)
next
  case (Piece c t born mr rb)
  then show ?thesis
    using landAll_total[OF assms(1)] pushRays_total[OF assms(1)] pawnMoves_total[OF assms(1)]
    by (cases t) (simp_all add: legalMovesForPiece_def Let_def)
qed

lemma legalMovesForMetamorph_total:
  assumes "complete (board gs)" "occupant sq \<noteq> Empty"
  shows "\<exists>ms. legalMovesForMetamorph gs sq = Inr ms"
proof -
  from assms(2) obtain c where c: "colorOf (occupant sq) = Some c"
    by (cases "occupant sq") auto
  define nr where "nr = rank sq + (if c = White then -1 else 1)"
  show ?thesis
    using complete_find[OF assms(1), of "file_sq sq" nr] c
    by (auto simp: legalMovesForMetamorph_def Let_def nr_def)
qed

lemma legalFor_total:
  assumes "complete (board gs)" "occupant sq \<noteq> Empty"
  shows "\<exists>ms. legalFor gs sq = Inr ms"
  using legalMovesForMetamorph_total[OF assms] legalMovesForPiece_total[OF assms]
  by (cases "occupant sq") (simp_all add: legalFor_def)


subsection \<open>The identity of the squares never changes\<close>

lemma geometry_setOccupant [simp]: "geometry (setOccupant b i oc) = geometry b"
proof (cases "i < length b")
  case True
  let ?f = "\<lambda>s. (id_sq s, file_sq s, rank s)"
  have "map ?f (b[i := (b ! i)\<lparr>occupant := oc\<rparr>]) = (map ?f b)[i := (map ?f b) ! i]"
    using True by (simp add: map_update)
  then show ?thesis by (simp add: geometry_def setOccupant_def)
next
  case False
  then have "b[i := (b ! i)\<lparr>occupant := oc\<rparr>] = b" by (simp add: list_update_beyond)
  then show ?thesis by (simp add: geometry_def setOccupant_def)
qed

lemma transformSquare_geometry:
  "transformSquare sq g = (sq', g') \<Longrightarrow>
     id_sq sq' = id_sq sq \<and> file_sq sq' = file_sq sq \<and> rank sq' = rank sq \<and> blueSymbol sq' = blueSymbol sq"
  by (auto simp: transformSquare_def Let_def split: if_splits option.splits Occupant.splits)

lemma sweepLoop_geometry: "sweepLoop b g = (b', g') \<Longrightarrow> geometry b' = geometry b"
proof (induction b arbitrary: g b' g')
  case Nil
  then show ?case by simp
next
  case (Cons sq sqs)
  obtain sq1 g1 where t: "transformSquare sq g = (sq1, g1)" by (cases "transformSquare sq g")
  obtain sqs2 g2 where l: "sweepLoop sqs g1 = (sqs2, g2)" by (cases "sweepLoop sqs g1")
  from Cons.prems t l have "b' = sq1 # sqs2" by simp
  with transformSquare_geometry[OF t] Cons.IH[OF l] show ?case by (simp add: geometry_def)
qed

lemma applyAutoTransforms_geometry [simp]:
  "geometry (board (applyAutoTransforms g)) = geometry (board g)"
  using sweepLoop_geometry[of "board g" g]
  by (cases "sweepLoop (board g) g") (simp add: applyAutoTransforms_def)

lemma expireSquare_geometry:
  "expireSquare sq g = (sq', g') \<Longrightarrow>
     id_sq sq' = id_sq sq \<and> file_sq sq' = file_sq sq \<and> rank sq' = rank sq \<and> blueSymbol sq' = blueSymbol sq"
  by (auto simp: expireSquare_def Let_def split: if_splits option.splits Occupant.splits)

lemma expireLoop_geometry: "expireLoop b g = (b', g') \<Longrightarrow> geometry b' = geometry b"
proof (induction b arbitrary: g b' g')
  case Nil
  then show ?case by simp
next
  case (Cons sq sqs)
  obtain sq1 g1 where t: "expireSquare sq g = (sq1, g1)" by (cases "expireSquare sq g")
  obtain sqs2 g2 where l: "expireLoop sqs g1 = (sqs2, g2)" by (cases "expireLoop sqs g1")
  from Cons.prems t l have "b' = sq1 # sqs2" by simp
  with expireSquare_geometry[OF t] Cons.IH[OF l] show ?case by (simp add: geometry_def)
qed

lemma expireLoans_geometry [simp]: "geometry (board (expireLoans g)) = geometry (board g)"
  using expireLoop_geometry[of "board g" g]
  by (cases "expireLoop (board g) g") (simp add: expireLoans_def)

lemma recordCapture_board [simp]: "board (recordCapture g j) = board g"
  by (simp add: recordCapture_def Let_def split: Occupant.splits)

lemma relocate_geometry [simp]: "geometry (relocate b i j) = geometry b"
  by (simp add: relocate_def)

lemma clearLandedLoan_geometry [simp]: "geometry (board (clearLandedLoan g j)) = geometry (board g)"
  by (simp add: clearLandedLoan_def Let_def split: Occupant.splits)

lemma landPiece_geometry [simp]: "geometry (board (landPiece g j)) = geometry (board g)"
  by (simp add: landPiece_def Let_def split: Occupant.splits option.splits)

lemma landMetamorph_geometry [simp]: "geometry (board (landMetamorph g j)) = geometry (board g)"
  by (simp add: landMetamorph_def Let_def split: Occupant.splits option.splits)

lemma flagPromotion_board [simp]: "board (flagPromotion g j) = board g"
  by (simp add: flagPromotion_def Let_def split: Occupant.splits)

lemma moved_geometry [simp]:
  "geometry (board (moved gs fromId toId i j c)) = geometry (board gs)"
  by (simp add: moved_def Let_def)



subsection \<open>A legal destination is never the origin\<close>

lemma landAll_delta:
  "landAll b c zr f0 r0 ds = Inr ms \<Longrightarrow> m \<in> set ms \<Longrightarrow>
     \<exists>d \<in> set ds. m = (f0 + fst d, r0 + snd d)"
proof (induction ds arbitrary: ms)
  case Nil
  then show ?case by simp
next
  case (Cons d ds)
  obtain df dr where d: "d = (df, dr)" by (cases d)
  from Cons.prems(1) obtain ok rest where
    rest: "landAll b c zr f0 r0 ds = Inr rest" and
    ms: "ms = (if ok then (f0 + df, r0 + dr) # rest else rest)"
    by (auto simp: d split: sum.splits)
  show ?case
  proof (cases "m \<in> set rest")
    case True
    with Cons.IH[OF rest] show ?thesis by auto
  next
    case False
    with Cons.prems(2) ms have "m = (f0 + df, r0 + dr)" by (auto split: if_splits)
    with d show ?thesis by simp
  qed
qed

lemma ray_steps:
  "ray b c zr df dr nf nr = Inr ms \<Longrightarrow> m \<in> set ms \<Longrightarrow>
     \<exists>k::nat. m = (nf + int k * df, nr + int k * dr)"
proof (induction b c zr df dr nf nr arbitrary: ms rule: ray.induct)
  case (1 b color zr df dr nf nr)
  show ?case
  proof (cases "inBounds nf nr \<and> (df, dr) \<noteq> (0, 0) \<and> \<not> (zr \<and> \<not> inZone nr)")
    case False
    with "1.prems" show ?thesis by (auto simp: ray.simps[of b color zr df dr nf nr] split: if_splits)
  next
    case True
    from True "1.prems"(1) obtain oc where oc: "occupantAt b nf nr = Inr oc"
      by (auto simp: ray.simps[of b color zr df dr nf nr] split: if_splits sum.splits)
    have here: "(nf, nr) = (nf + int 0 * df, nr + int 0 * dr)" by simp
    show ?thesis
    proof (cases "oc = Empty")
      case e: True
      with True oc "1.prems"(1)
      obtain rest where rest: "ray b color zr df dr (nf + df) (nr + dr) = Inr rest"
        and ms: "ms = (nf, nr) # rest"
        by (auto simp: ray.simps[of b color zr df dr nf nr] split: if_splits sum.splits)
      show ?thesis
      proof (cases "m = (nf, nr)")
        case True
        with here show ?thesis by blast
      next
        case False
        with ms "1.prems"(2) have "m \<in> set rest" by simp
        from "1.IH"[OF _ _ oc e rest this] True
        obtain k :: nat where "m = (nf + df + int k * df, nr + dr + int k * dr)" by auto
        then have "m = (nf + int (Suc k) * df, nr + int (Suc k) * dr)"
          by (simp add: algebra_simps)
        then show ?thesis by blast
      qed
    next
      case False
      with True oc "1.prems" have "m = (nf, nr)"
        by (cases oc) (auto simp: ray.simps[of b color zr df dr nf nr] split: if_splits sum.splits)
      with here show ?thesis by blast
    qed
  qed
qed

lemma pushRays_steps:
  "pushRays b c zr f0 r0 dirs = Inr ms \<Longrightarrow> m \<in> set ms \<Longrightarrow>
     \<exists>d \<in> set dirs. \<exists>k::nat. m = (f0 + int (Suc k) * fst d, r0 + int (Suc k) * snd d)"
proof (induction dirs arbitrary: ms)
  case Nil
  then show ?case by simp
next
  case (Cons d dirs)
  obtain df dr where d: "d = (df, dr)" by (cases d)
  from Cons.prems(1) obtain m1 m2 where
    m1: "ray b c zr df dr (f0 + df) (r0 + dr) = Inr m1" and
    m2: "pushRays b c zr f0 r0 dirs = Inr m2" and ms: "ms = m1 @ m2"
    by (auto simp: d split: sum.splits)
  from Cons.prems(2) ms consider "m \<in> set m1" | "m \<in> set m2" by auto
  then show ?case
  proof cases
    case 1
    from ray_steps[OF m1 1] obtain k :: nat where
      "m = (f0 + df + int k * df, r0 + dr + int k * dr)" by blast
    then have "m = (f0 + int (Suc k) * df, r0 + int (Suc k) * dr)" by (simp add: algebra_simps)
    with d show ?thesis by auto
  next
    case 2
    with Cons.IH[OF m2] show ?thesis by auto
  qed
qed

lemma pushRays_origin:
  assumes "pushRays b c zr f0 r0 dirs = Inr ms" and "(0, 0) \<notin> set dirs"
  shows "(f0, r0) \<notin> set ms"
proof
  assume "(f0, r0) \<in> set ms"
  from pushRays_steps[OF assms(1) this] obtain d and k :: nat where
    d: "d \<in> set dirs" and e: "(f0, r0) = (f0 + int (Suc k) * fst d, r0 + int (Suc k) * snd d)"
    by blast
  from e have "int (Suc k) * fst d = 0" "int (Suc k) * snd d = 0" by simp_all
  then have "fst d = 0" "snd d = 0" by simp_all
  then have "d = (0, 0)" by (simp add: prod_eq_iff)
  with d assms(2) show False by simp
qed

lemma landAll_origin:
  assumes "landAll b c zr f0 r0 ds = Inr ms" and "(0, 0) \<notin> set ds"
  shows "(f0, r0) \<notin> set ms"
proof
  assume "(f0, r0) \<in> set ms"
  from landAll_delta[OF assms(1) this] obtain d where
    d: "d \<in> set ds" and e: "(f0, r0) = (f0 + fst d, r0 + snd d)" by blast
  from e have "d = (0, 0)" by (simp add: prod_eq_iff)
  with d assms(2) show False by simp
qed

lemma pawnCaptures_rank:
  "pawnCaptures b c f0 nr dfs = Inr ms \<Longrightarrow> m \<in> set ms \<Longrightarrow> snd m = nr"
  by (induction dfs arbitrary: ms) (auto split: if_splits sum.splits)

lemma pawnMoves_origin:
  assumes "pawnMoves b c f0 r0 = Inr ms"
  shows "(f0, r0) \<notin> set ms"
proof
  assume in_ms: "(f0, r0) \<in> set ms"
  define dir :: int where "dir = (if c = White then -1 else 1)"
  from assms obtain fwd caps where
    fwd: "(if inBounds f0 (r0 + dir)
           then (case findSquare b f0 (r0 + dir) of
                   None \<Rightarrow> Inl TypeError
                 | Some front \<Rightarrow> Inr (if occupant front = Empty then [(f0, r0 + dir)] else []))
           else Inr []) = Inr fwd"
    and caps: "pawnCaptures b c f0 (r0 + dir) [-1, 1] = Inr caps"
    and ms: "ms = fwd @ caps"
    unfolding pawnMoves_def Let_def dir_def bindE_Inr by blast
  from fwd have "\<forall>x \<in> set fwd. snd x = r0 + dir" by (auto split: if_splits option.splits)
  with pawnCaptures_rank[OF caps] in_ms ms have "r0 = r0 + dir" by fastforce
  then show False by (simp add: dir_def split: if_splits)
qed

lemma dirs_nonzero:
  "(0, 0) \<notin> set kingDeltas" "(0, 0) \<notin> set knightDeltas" "(0, 0) \<notin> set queenDirs"
  "(0, 0) \<notin> set rookDirs" "(0, 0) \<notin> set bishopDirs"
  by (simp_all add: kingDeltas_def knightDeltas_def queenDirs_def rookDirs_def bishopDirs_def)

lemma legalMovesForPiece_origin:
  assumes a: "legalMovesForPiece gs sq = Inr ms"
  shows "(file_sq sq, rank sq) \<notin> set ms"
proof (cases "occupant sq")
  case Empty
  with a show ?thesis by (simp add: legalMovesForPiece_def)
next
  case (Metamorph c)
  with a show ?thesis by (auto simp: legalMovesForPiece_def)
next
  case (Piece c t born mr rb)
  show ?thesis
  proof (cases t)
    case K
    with a Piece have "landAll (board gs) c (\<not> mr) (file_sq sq) (rank sq) kingDeltas = Inr ms"
      by (simp add: legalMovesForPiece_def)
    then show ?thesis using dirs_nonzero(1) by (rule landAll_origin)
  next
    case Q
    with a Piece have "pushRays (board gs) c (\<not> mr) (file_sq sq) (rank sq) queenDirs = Inr ms"
      by (simp add: legalMovesForPiece_def)
    then show ?thesis using dirs_nonzero(3) by (rule pushRays_origin)
  next
    case R
    with a Piece have "pushRays (board gs) c (\<not> mr) (file_sq sq) (rank sq) rookDirs = Inr ms"
      by (simp add: legalMovesForPiece_def)
    then show ?thesis using dirs_nonzero(4) by (rule pushRays_origin)
  next
    case B
    with a Piece have "pushRays (board gs) c (\<not> mr) (file_sq sq) (rank sq) bishopDirs = Inr ms"
      by (simp add: legalMovesForPiece_def)
    then show ?thesis using dirs_nonzero(5) by (rule pushRays_origin)
  next
    case N
    with a Piece have "landAll (board gs) c (\<not> mr) (file_sq sq) (rank sq) knightDeltas = Inr ms"
      by (simp add: legalMovesForPiece_def)
    then show ?thesis using dirs_nonzero(2) by (rule landAll_origin)
  next
    case P
    with a Piece have "pawnMoves (board gs) c (file_sq sq) (rank sq) = Inr ms"
      by (simp add: legalMovesForPiece_def)
    then show ?thesis by (rule pawnMoves_origin)
  qed
qed

lemma legalMovesForMetamorph_origin:
  "legalMovesForMetamorph gs sq = Inr ms \<Longrightarrow> (file_sq sq, rank sq) \<notin> set ms"
  by (auto simp: legalMovesForMetamorph_def Let_def split: option.splits if_splits)

lemma legalFor_origin:
  "legalFor gs sq = Inr ms \<Longrightarrow> (file_sq sq, rank sq) \<notin> set ms"
  using legalMovesForPiece_origin legalMovesForMetamorph_origin
  by (cases "occupant sq") (auto simp: legalFor_def)

subsection \<open>The move sets, square by square\<close>

lemma canLand_landable:
  "canLand b c zone f r = Inr ok \<Longrightarrow> ok = landable b c zone (f, r)"
  by (auto simp: canLand_def landable_def bindE_Inr split: if_splits)

lemma landAll_iff:
  assumes "landAll b c zone f0 r0 ds = Inr ms"
  shows "m \<in> set ms \<longleftrightarrow> stepsTo b c zone f0 r0 ds m"
  using assms
proof (induction ds arbitrary: ms)
  case Nil
  then show ?case by (simp add: stepsTo_def)
next
  case (Cons d ds)
  obtain df dr where d: "d = (df, dr)" by (cases d)
  from Cons.prems d obtain ok rest where ok: "canLand b c zone (f0 + df) (r0 + dr) = Inr ok"
    and rest: "landAll b c zone f0 r0 ds = Inr rest"
    and ms: "ms = (if ok then (f0 + df, r0 + dr) # rest else rest)"
    by (auto split: sum.splits)
  from Cons.IH[OF rest] canLand_landable[OF ok] ms d show ?case
    by (auto simp: stepsTo_def along_def)
qed

lemma ray_iff:
  assumes "ray b c zone df dr nf nr = Inr ms" and "(df, dr) \<noteq> (0, 0)"
  shows "m \<in> set ms \<longleftrightarrow>
           (\<exists>n. m = along nf nr (df, dr) n
                \<and> (\<forall>k < n. passable b zone (along nf nr (df, dr) k))
                \<and> landable b c zone m)"
  using assms
proof (induction b c zone df dr nf nr arbitrary: ms rule: ray.induct)
  case (1 b color zone df dr nf nr)
  let ?R = "\<lambda>nf nr. \<exists>n. m = along nf nr (df, dr) n
                \<and> (\<forall>k < n. passable b zone (along nf nr (df, dr) k))
                \<and> landable b color zone m"
  have split: "?R nf nr \<longleftrightarrow> (m = (nf, nr) \<and> landable b color zone m)
                 \<or> (passable b zone (nf, nr) \<and> ?R (nf + df) (nr + dr))"
  proof
    assume "?R nf nr"
    then obtain n where n: "m = along nf nr (df, dr) n"
      "\<forall>k < n. passable b zone (along nf nr (df, dr) k)" "landable b color zone m" by blast
    show "(m = (nf, nr) \<and> landable b color zone m)
                 \<or> (passable b zone (nf, nr) \<and> ?R (nf + df) (nr + dr))"
    proof (cases n)
      case 0
      with n show ?thesis by (simp add: along_def)
    next
      case (Suc n')
      with n(2) have p0: "passable b zone (nf, nr)" by (auto simp: along_def dest: spec[of _ 0])
      have "m = along (nf + df) (nr + dr) (df, dr) n'" using n(1) Suc
        by (simp add: along_def algebra_simps)
      moreover have "\<forall>k < n'. passable b zone (along (nf + df) (nr + dr) (df, dr) k)"
      proof (intro allI impI)
        fix k assume "k < n'"
        with n(2) Suc have "passable b zone (along nf nr (df, dr) (Suc k))" by simp
        then show "passable b zone (along (nf + df) (nr + dr) (df, dr) k)"
          by (simp add: along_def algebra_simps)
      qed
      ultimately show ?thesis using p0 n(3) by blast
    qed
  next
    assume "(m = (nf, nr) \<and> landable b color zone m)
                 \<or> (passable b zone (nf, nr) \<and> ?R (nf + df) (nr + dr))"
    then show "?R nf nr"
    proof
      assume "m = (nf, nr) \<and> landable b color zone m"
      then show ?thesis by (intro exI[of _ 0]) (auto simp: along_def)
    next
      assume a: "passable b zone (nf, nr) \<and> ?R (nf + df) (nr + dr)"
      then obtain n' where n: "m = along (nf + df) (nr + dr) (df, dr) n'"
        "\<forall>k < n'. passable b zone (along (nf + df) (nr + dr) (df, dr) k)"
        "landable b color zone m" by blast
      have "\<forall>k < Suc n'. passable b zone (along nf nr (df, dr) k)"
      proof (intro allI impI)
        fix k assume k: "k < Suc n'"
        show "passable b zone (along nf nr (df, dr) k)"
        proof (cases k)
          case 0
          with a show ?thesis by (simp add: along_def)
        next
          case (Suc k')
          with k n(2) have "passable b zone (along (nf + df) (nr + dr) (df, dr) k')" by simp
          with Suc show ?thesis by (simp add: along_def algebra_simps)
        qed
      qed
      with n show ?thesis by (intro exI[of _ "Suc n'"]) (simp add: along_def algebra_simps)
    qed
  qed
  show ?case
  proof (cases "inBounds nf nr \<and> \<not> (zone \<and> \<not> inZone nr)")
    case False
    with "1.prems" have "ms = []" by (subst (asm) ray.simps) (auto split: if_splits)
    moreover from False have "\<not> passable b zone (nf, nr)" "\<not> landable b color zone (nf, nr)"
      by (auto simp: passable_def landable_def)
    ultimately show ?thesis unfolding split by auto
  next
    case True
    with "1.prems" obtain oc where oc: "occupantAt b nf nr = Inr oc"
      by (subst (asm) ray.simps) (auto split: if_splits sum.splits)
    show ?thesis
    proof (cases "oc = Empty")
      case e: True
      with "1.prems" True oc obtain ms' where
        r: "ray b color zone df dr (nf + df) (nr + dr) = Inr ms'" and ms: "ms = (nf, nr) # ms'"
        by (subst (asm) ray.simps) (auto split: if_splits sum.splits)
      from True "1.prems"(2) have c1: "inBounds nf nr \<and> (df, dr) \<noteq> (0, 0)" by simp
      from True have c2: "\<not> (zone \<and> \<not> inZone nr)" by simp
      note ih = "1.IH"[OF c1 c2 oc e r "1.prems"(2)]
      from True oc e have "passable b zone (nf, nr)" "landable b color zone (nf, nr)"
        by (auto simp: passable_def landable_def)
      with ih ms show ?thesis unfolding split by auto
    next
      case ne: False
      with "1.prems" True oc have ms: "ms = (if enemyPiece color oc then [(nf, nr)] else [])"
        by (subst (asm) ray.simps) (cases oc; auto split: if_splits)
      from ne oc have "\<not> passable b zone (nf, nr)" by (simp add: passable_def)
      moreover from True oc ne have "landable b color zone (nf, nr) = enemyPiece color oc"
        by (auto simp: landable_def)
      ultimately show ?thesis unfolding split using ms by auto
    qed
  qed
qed


lemma span_bound:
  fixes a d lo :: int and n :: nat
  assumes "d \<noteq> 0" "lo \<le> a" "a \<le> lo + 7" "lo \<le> a + int n * d" "a + int n * d \<le> lo + 7"
  shows "n \<le> 7"
proof -
  from assms(2-5) have "\<bar>int n * d\<bar> \<le> 7" by linarith
  moreover from assms(1) have "1 \<le> \<bar>d\<bar>" by linarith
  then have "int n * 1 \<le> int n * \<bar>d\<bar>" by (intro mult_left_mono) simp_all
  ultimately show ?thesis by (simp add: abs_mult)
qed

lemma along_bound:
  assumes "d \<noteq> (0, 0)" and "inBounds (fst (along f r d 0)) (snd (along f r d 0))"
    and "inBounds (fst (along f r d n)) (snd (along f r d n))"
  shows "n \<le> 7"
proof (cases "fst d = 0")
  case False
  from assms(2,3) span_bound[OF False, of 0 f n] show ?thesis
    by (simp add: along_def inBounds_def)
next
  case True
  with assms(1) have "snd d \<noteq> 0" by (cases d) auto
  from assms(2,3) span_bound[OF this, of 1 r n] show ?thesis
    by (simp add: along_def inBounds_def)
qed

lemma ray_slides:
  assumes r: "ray b c zone (fst d) (snd d) (f0 + fst d) (r0 + snd d) = Inr ms" and d: "d \<noteq> (0, 0)"
  shows "m \<in> set ms \<longleftrightarrow>
           list_ex (\<lambda>n. m = along f0 r0 d n
                        \<and> list_all (\<lambda>k. passable b zone (along f0 r0 d k)) [1..<n]
                        \<and> landable b c zone m) [1..<9]"
proof -
  have sh: "along (f0 + fst d) (r0 + snd d) d k = along f0 r0 d (Suc k)" for k
    by (simp add: along_def algebra_simps)
  from d have d': "(fst d, snd d) \<noteq> (0, 0)" by (cases d) simp
  note ri = ray_iff[OF r d', of m, unfolded prod.collapse sh]
  show ?thesis
  proof
    assume "m \<in> set ms"
    with ri obtain n where n: "m = along f0 r0 d (Suc n)"
      "\<forall>k < n. passable b zone (along f0 r0 d (Suc k))" "landable b c zone m" by blast
    have "n \<le> 7"
    proof (cases n)
      case 0
      then show ?thesis by simp
    next
      case (Suc n')
      with n(2) have "passable b zone (along f0 r0 d (Suc 0))" by blast
      then have 1: "inBounds (fst (along (f0 + fst d) (r0 + snd d) d 0))
                      (snd (along (f0 + fst d) (r0 + snd d) d 0))"
        unfolding sh by (simp add: passable_def)
      from n(1,3) have 2: "inBounds (fst (along (f0 + fst d) (r0 + snd d) d n))
                      (snd (along (f0 + fst d) (r0 + snd d) d n))"
        unfolding sh by (simp add: landable_def)
      from along_bound[OF d 1 2] show ?thesis .
    qed
    then have "Suc n \<in> set [1..<9]" by simp
    moreover have "list_all (\<lambda>k. passable b zone (along f0 r0 d k)) [1..<Suc n]"
    proof -
      have "passable b zone (along f0 r0 d k)" if "1 \<le> k" "k < Suc n" for k
        using n(2)[rule_format, of "k - 1"] that by simp
      then show ?thesis unfolding list_all_iff by (simp del: upt_Suc)
    qed
    ultimately show "list_ex (\<lambda>n. m = along f0 r0 d n
                        \<and> list_all (\<lambda>k. passable b zone (along f0 r0 d k)) [1..<n]
                        \<and> landable b c zone m) [1..<9]"
      using n(1,3) unfolding list_ex_iff by blast
  next
    assume "list_ex (\<lambda>n. m = along f0 r0 d n
                        \<and> list_all (\<lambda>k. passable b zone (along f0 r0 d k)) [1..<n]
                        \<and> landable b c zone m) [1..<9]"
    then obtain n where n: "1 \<le> n" "m = along f0 r0 d n"
      "list_all (\<lambda>k. passable b zone (along f0 r0 d k)) [1..<n]" "landable b c zone m"
      unfolding list_ex_iff by auto
    from n(1) obtain n' where n': "n = Suc n'" by (cases n) simp_all
    have "\<forall>k < n'. passable b zone (along f0 r0 d (Suc k))"
      using n(3) unfolding n' list_all_iff by (simp del: upt_Suc)
    with n(2,4) n' ri show "m \<in> set ms" by blast
  qed
qed

lemma pushRays_iff:
  assumes "pushRays b c zone f0 r0 dirs = Inr ms" and "(0, 0) \<notin> set dirs"
  shows "m \<in> set ms \<longleftrightarrow> slidesTo b c zone f0 r0 dirs m"
  using assms
proof (induction dirs arbitrary: ms)
  case Nil
  then show ?case by (simp add: slidesTo_def)
next
  case (Cons d dirs)
  obtain df dr where dd: "d = (df, dr)" by (cases d)
  from Cons.prems(1) dd obtain ms1 ms2 where
    r: "ray b c zone (fst d) (snd d) (f0 + fst d) (r0 + snd d) = Inr ms1"
    and p: "pushRays b c zone f0 r0 dirs = Inr ms2" and ms: "ms = ms1 @ ms2"
    by (auto split: sum.splits)
  from Cons.prems(2) have d: "d \<noteq> (0, 0)" and ds: "(0, 0) \<notin> set dirs" by auto
  from ray_slides[OF r d, of m] Cons.IH[OF p ds] ms show ?case
    by (simp add: slidesTo_def)
qed

lemma pawnCaptures_iff:
  assumes "pawnCaptures b c f0 nr dfs = Inr ms"
  shows "m \<in> set ms \<longleftrightarrow>
           (\<exists>df \<in> set dfs. m = (f0 + df, nr) \<and> inBounds (fst m) (snd m)
              \<and> (case occupantAt b (fst m) (snd m) of Inr oc \<Rightarrow> enemyPiece c oc | Inl e \<Rightarrow> False))"
  using assms
proof (induction dfs arbitrary: ms)
  case Nil
  then show ?case by simp
next
  case (Cons df dfs)
  show ?case
  proof (cases "inBounds (f0 + df) nr")
    case False
    with Cons.prems have "pawnCaptures b c f0 nr dfs = Inr ms" by simp
    from Cons.IH[OF this] False show ?thesis by auto
  next
    case True
    with Cons.prems obtain oc rest where oc: "occupantAt b (f0 + df) nr = Inr oc"
      and rest: "pawnCaptures b c f0 nr dfs = Inr rest"
      and ms: "ms = (if enemyPiece c oc then (f0 + df, nr) # rest else rest)"
      by (auto split: sum.splits)
    from Cons.IH[OF rest] True oc ms show ?thesis by auto
  qed
qed

lemma pawnMoves_iff:
  assumes "pawnMoves b c f0 r0 = Inr ms"
  shows "m \<in> set ms \<longleftrightarrow> pawnTo b c f0 r0 m"
proof -
  define r1 where "r1 = r0 + (if c = White then -1 else 1)"
  from assms obtain fwd caps where
    fwd: "(if inBounds f0 r1
           then (case findSquare b f0 r1 of
                   None \<Rightarrow> Inl TypeError
                 | Some front \<Rightarrow> Inr (if occupant front = Empty then [(f0, r1)] else []))
           else Inr []) = Inr fwd"
    and caps: "pawnCaptures b c f0 r1 [-1, 1] = Inr caps" and ms: "ms = fwd @ caps"
    unfolding pawnMoves_def Let_def r1_def by (auto simp: bindE_Inr)
  have f: "m \<in> set fwd \<longleftrightarrow> m = (f0, r1) \<and> passable b False m"
    using fwd by (auto simp: passable_def occupantAt_def split: if_splits option.splits)
  from pawnCaptures_iff[OF caps, of m] f ms show ?thesis
    unfolding pawnTo_def Let_def r1_def[symmetric] by auto
qed

lemma legalMovesForPiece_geometry:
  assumes "occupant from = Piece color t born mustReturn rb"
    and "legalMovesForPiece gs from = Inr ms"
  shows "m \<in> set ms \<longleftrightarrow>
           geometryAllows (board gs) color (\<not> mustReturn) t (file_sq from) (rank from) m"
  using assms landAll_iff[of "board gs" color "\<not> mustReturn" "file_sq from" "rank from" _ ms m]
    pushRays_iff[of "board gs" color "\<not> mustReturn" "file_sq from" "rank from" _ ms m]
    pawnMoves_iff[of "board gs" color "file_sq from" "rank from" ms m] dirs_nonzero
  by (cases t) (simp_all add: legalMovesForPiece_def Let_def geometryAllows_def)

subsection \<open>The zone restriction\<close>

text \<open>
  Claim C2, as the code has it. (1) Every destination generated for a differentiated
  piece is on the board, and for a piece that is no loan (\<open>mustReturn\<close> false) and no pawn
  it lies within ranks 3..6. The pawn branch of \<^verbatim>\<open>legalMovesForPiece\<close> never consults
  \<^verbatim>\<open>limitTo316\<close>: a pawn leaves the zone on its way to the far rank. (2) The generated
  set is exactly what the geometry of the piece allows: a knight or king steps by one of
  its deltas, a bishop, rook or queen slides over empty squares along one of its
  directions, each onto a square of the board that is empty or holds an opposing piece;
  for a piece that is no loan every square landed on or passed over must lie on ranks
  3..6, for a loan (\<open>mustReturn\<close> true) no rank is excluded. (3) On a complete board the
  generator returns for every occupied square.
\<close>

theorem legalMovesForPiece_zone:
  "(occupant from = Piece color t born mustReturn rb \<and> legalMovesForPiece gs from = Inr ms
      \<and> m \<in> set ms
     \<longrightarrow> inBounds (fst m) (snd m) \<and> (\<not> mustReturn \<and> t \<noteq> P \<longrightarrow> inZone (snd m)))
   \<and> (occupant from = Piece color t born mustReturn rb \<and> legalMovesForPiece gs from = Inr ms
     \<longrightarrow> (m \<in> set ms \<longleftrightarrow>
            geometryAllows (board gs) color (\<not> mustReturn) t (file_sq from) (rank from) m))
   \<and> (complete (board gs) \<and> occupant from \<noteq> Empty
     \<longrightarrow> (\<exists>ms. legalMovesForPiece gs from = Inr ms))"
proof -
  have 1: "inBounds (fst m) (snd m) \<and> (\<not> mustReturn \<and> t \<noteq> P \<longrightarrow> inZone (snd m))"
    if "occupant from = Piece color t born mustReturn rb" "legalMovesForPiece gs from = Inr ms"
      "m \<in> set ms"
    using that
    by (cases t) (auto simp: legalMovesForPiece_def Let_def dest: landAll_dest pushRays_dest pawnMoves_dest)
  have 2: "m \<in> set ms \<longleftrightarrow>
            geometryAllows (board gs) color (\<not> mustReturn) t (file_sq from) (rank from) m"
    if "occupant from = Piece color t born mustReturn rb" "legalMovesForPiece gs from = Inr ms"
    using that by (rule legalMovesForPiece_geometry)
  have 3: "\<exists>ms. legalMovesForPiece gs from = Inr ms"
    if "complete (board gs)" "occupant from \<noteq> Empty"
    using that by (rule legalMovesForPiece_total)
  from 1 2 3 show ?thesis by blast
qed

theorem legalMovesForPiece_zone_witness:
  "occupant (squareOf knightState ''d4'') = Piece White N 1 False None
   \<and> legalMovesForPiece knightState (squareOf knightState ''d4'')
       = Inr [(4, 6), (5, 5), (2, 6), (1, 5), (5, 3), (1, 3)]
   \<and> inBounds 5 3 \<and> inZone 3
   \<and> geometryAllows (board knightState) White True N 3 4 (5, 3)
   \<and> occupant (squareOf loanFresh ''a1'') = Piece White Q 6 True (Some 7)
   \<and> legalMovesForPiece loanFresh (squareOf loanFresh ''a1'')
       = Inr [(1, 1), (2, 1), (3, 1), (4, 1), (5, 1), (6, 1), (7, 1), (0, 2),
              (0, 3), (0, 4), (0, 5), (0, 6), (0, 7), (0, 8), (1, 2), (2, 3),
              (3, 4), (4, 5), (5, 6), (6, 7), (7, 8)]
   \<and> geometryAllows (board loanFresh) White False Q 0 1 (0, 8)
   \<and> \<not> inZone 8"
proof -
  have h1: "occupant (squareOf knightState ''d4'') = Piece White N 1 False None"
    by code_simp
  have h2: "legalMovesForPiece knightState (squareOf knightState ''d4'')
              = Inr [(4, 6), (5, 5), (2, 6), (1, 5), (5, 3), (1, 3)]"
    by code_simp
  have h3: "(5, 3) \<in> set [(4, 6), (5, 5), (2, 6), (1, 5), (5, 3), (1::int, 3::int)]"
    by simp
  have h4: "file_sq (squareOf knightState ''d4'') = 3" "rank (squareOf knightState ''d4'') = 4"
    by code_simp+
  have c1: "complete (board knightState)" by (rule wellFormed_complete) code_simp
  from legalMovesForPiece_zone[of "squareOf knightState ''d4''" White N 1 False None knightState
      "[(4, 6), (5, 5), (2, 6), (1, 5), (5, 3), (1, 3)]" "(5, 3)"] h1 h2 h3 h4 c1
  have k: "inBounds 5 3 \<and> inZone 3 \<and> geometryAllows (board knightState) White True N 3 4 (5, 3)"
    by simp
  have l1: "occupant (squareOf loanFresh ''a1'') = Piece White Q 6 True (Some 7)" by code_simp
  have l2: "legalMovesForPiece loanFresh (squareOf loanFresh ''a1'')
       = Inr [(1, 1), (2, 1), (3, 1), (4, 1), (5, 1), (6, 1), (7, 1), (0, 2),
              (0, 3), (0, 4), (0, 5), (0, 6), (0, 7), (0, 8), (1, 2), (2, 3),
              (3, 4), (4, 5), (5, 6), (6, 7), (7, 8)]" by code_simp
  have l4: "file_sq (squareOf loanFresh ''a1'') = 0" "rank (squareOf loanFresh ''a1'') = 1"
    by code_simp+
  have c2: "complete (board loanFresh)" by (rule wellFormed_complete) code_simp
  from legalMovesForPiece_zone[of "squareOf loanFresh ''a1''" White Q 6 True "Some 7" loanFresh
      "[(1, 1), (2, 1), (3, 1), (4, 1), (5, 1), (6, 1), (7, 1), (0, 2),
              (0, 3), (0, 4), (0, 5), (0, 6), (0, 7), (0, 8), (1, 2), (2, 3),
              (3, 4), (4, 5), (5, 6), (6, 7), (7, 8)]" "(0, 8)"] l1 l2 l4 c2
  have q: "geometryAllows (board loanFresh) White False Q 0 1 (0, 8)" by simp
  have z: "\<not> inZone 8" by (simp add: inZone_def)
  from h1 h2 k l1 l2 q z show ?thesis by simp
qed

text \<open>
  The claim as the specification words it fails for pawns: a white pawn on a3 that is
  no loan has the destination a2, on rank 2.
\<close>

theorem pawn_leaves_zone:
  "occupant (squareOf pawnState ''a3'') = Piece White P 1 False None
   \<and> legalMovesForPiece pawnState (squareOf pawnState ''a3'') = Inr [(0, 2)]
   \<and> \<not> inZone 2"
  by code_simp

subsection \<open>The engine does not throw on a well-formed board\<close>

lemma isPieceOf_nonempty: "isPieceOf c oc \<Longrightarrow> oc \<noteq> Empty"
  by (cases oc) auto

lemma isKingOf_nonempty: "isKingOf c oc \<Longrightarrow> oc \<noteq> Empty"
  by (cases oc) auto

lemma isPawnOf_nonempty: "isPawnOf c oc \<Longrightarrow> oc \<noteq> Empty"
  by (cases oc) auto

lemma isMetamorphOf_nonempty: "isMetamorphOf c oc \<Longrightarrow> oc \<noteq> Empty"
  by (cases oc) auto

lemma attackedLoop_total:
  "complete (board gs) \<Longrightarrow> \<exists>x. attackedLoop gs f r by sqs = Inr x"
proof (induction sqs)
  case Nil
  then show ?case by auto
next
  case (Cons sq sqs)
  show ?case
  proof (cases "isPieceOf by (occupant sq)")
    case False
    with Cons show ?thesis by auto
  next
    case True
    then obtain ms where "legalMovesForPiece gs sq = Inr ms"
      using legalMovesForPiece_total[OF Cons.prems] isPieceOf_nonempty by blast
    with True Cons show ?thesis by auto
  qed
qed

lemma isSquareAttacked_total:
  "complete (board gs) \<Longrightarrow> \<exists>x. isSquareAttacked gs f r by = Inr x"
  by (simp add: isSquareAttacked_def attackedLoop_total)

lemma safeMoves_total:
  "complete (board gs) \<Longrightarrow> \<exists>x. safeMoves gs lastMover ms = Inr x"
proof (induction ms)
  case Nil
  then show ?case by auto
next
  case (Cons m ms)
  from Cons obtain rest where "safeMoves gs lastMover ms = Inr rest" by blast
  moreover obtain att where "isSquareAttacked gs (fst m) (snd m) lastMover = Inr att"
    using isSquareAttacked_total[OF Cons.prems] by blast
  ultimately show ?case by simp
qed

lemma findKingSquare_Some:
  "findKingSquare gs c = Some ksq \<Longrightarrow> isKingOf c (occupant ksq) \<and> ksq \<in> set (board gs)"
  by (auto simp: findKingSquare_def find_Some_iff)

lemma checkmated_total:
  assumes "complete (board gs)"
  shows "\<exists>x. checkmated gs opponent lastMover = Inr x"
proof (cases "kingOnBoard gs opponent")
  case False
  then show ?thesis by (auto simp: checkmated_def)
next
  case True
  show ?thesis
  proof (cases "findKingSquare gs opponent")
    case None
    with True show ?thesis by (auto simp: checkmated_def)
  next
    case (Some ksq)
    obtain inCheck where ic: "isSquareAttacked gs (file_sq ksq) (rank ksq) lastMover = Inr inCheck"
      using isSquareAttacked_total[OF assms] by blast
    from findKingSquare_Some[OF Some] have "occupant ksq \<noteq> Empty"
      using isKingOf_nonempty by blast
    then obtain ms where ms: "legalMovesForPiece gs ksq = Inr ms"
      using legalMovesForPiece_total[OF assms] by blast
    obtain sf where "safeMoves gs lastMover (filter (\<lambda>m. isKingOf opponent (occupant ksq)) ms) = Inr sf"
      using safeMoves_total[OF assms] by blast
    with True Some ic ms show ?thesis by (auto simp: checkmated_def)
  qed
qed

lemma pawnLoop_total:
  "complete (board gs) \<Longrightarrow> \<exists>x. pawnLoop gs c sqs = Inr x"
proof (induction sqs)
  case Nil
  then show ?case by auto
next
  case (Cons sq sqs)
  show ?case
  proof (cases "isPawnOf c (occupant sq)")
    case False
    with Cons show ?thesis by auto
  next
    case True
    then obtain ms where "legalMovesForPiece gs sq = Inr ms"
      using legalMovesForPiece_total[OF Cons.prems] isPawnOf_nonempty by blast
    with True Cons show ?thesis by auto
  qed
qed

lemma metamorphLoop_total:
  "complete (board gs) \<Longrightarrow> \<exists>x. metamorphLoop gs c sqs = Inr x"
proof (induction sqs)
  case Nil
  then show ?case by auto
next
  case (Cons sq sqs)
  show ?case
  proof (cases "isMetamorphOf c (occupant sq)")
    case False
    with Cons show ?thesis by auto
  next
    case True
    then obtain ms where "legalMovesForMetamorph gs sq = Inr ms"
      using legalMovesForMetamorph_total[OF Cons.prems] isMetamorphOf_nonempty by blast
    with True Cons show ?thesis by auto
  qed
qed

lemma immobilityLoop_total:
  assumes "complete (board gs)"
  shows "\<exists>x. immobilityLoop gs cs = Inr x"
proof (induction cs)
  case Nil
  then show ?case by auto
next
  case (Cons c cs)
  obtain a where a: "anyPawnCanMove gs c = Inr a"
    using pawnLoop_total[OF assms] by (auto simp: anyPawnCanMove_def)
  obtain m where m: "anyMetamorphCanMove gs c = Inr m"
    using metamorphLoop_total[OF assms] by (auto simp: anyMetamorphCanMove_def)
  from Cons a m show ?case by (auto simp: Let_def)
qed

lemma detectWin_total:
  assumes "complete (board gs)"
  shows "\<exists>x. detectWin gs lastMover ck = Inr x"
proof -
  obtain mate where "checkmated gs (turn gs) lastMover = Inr mate"
    using checkmated_total[OF assms] by blast
  moreover obtain im where "immobilityLoop gs [White, Black] = Inr im"
    using immobilityLoop_total[OF assms] by blast
  ultimately show ?thesis by (auto simp: detectWin_def Let_def)
qed

lemma finishMove_total:
  assumes "complete (board next)"
  shows "\<exists>g. finishMove next ck = Inr g"
proof -
  let ?n = "(applyAutoTransforms next)\<lparr>selected := None, message := None\<rparr>"
  have "geometry (board ?n) = geometry (board next)" by simp
  with assms have "complete (board ?n)" using complete_geometry by blast
  then obtain win where "detectWin ?n (otherColor (turn ?n)) ck = Inr win"
    using detectWin_total by blast
  then show ?thesis by (cases win) (auto simp: finishMove_def Let_def)
qed

lemma moved_complete:
  "complete (board gs) \<Longrightarrow> complete (board (moved gs fromId toId i j c))"
  using complete_geometry[OF moved_geometry] by blast

lemma performMove_total:
  assumes wf: "wellFormed (board gs)"
    and ids: "fromId \<in> set squareIds" "toId \<in> set squareIds"
  shows "\<exists>g'. performMove gs fromId toId = Inr g'"
proof -
  have c: "complete (board gs)" using wf by (rule wellFormed_complete)
  obtain i where i: "findIndex (\<lambda>s. id_sq s = fromId) (board gs) = Some i"
    using wellFormed_findIndex[OF wf ids(1)] by blast
  obtain j where j: "findIndex (\<lambda>s. id_sq s = toId) (board gs) = Some j"
    using wellFormed_findIndex[OF wf ids(2)] by blast
  show ?thesis
  proof (cases "colorOf (occupant (board gs ! i))")
    case None
    with i show ?thesis by (simp add: performMove_def Let_def)
  next
    case (Some mc)
    then have "occupant (board gs ! i) \<noteq> Empty" by auto
    then obtain legal where l: "legalFor gs (board gs ! i) = Inr legal"
      using legalFor_total[OF c] by blast
    have fin: "\<exists>g. finishMove (moved gs fromId toId i j mc) ck = Inr g" for ck
      using finishMove_total[OF moved_complete[OF c]] by blast
    from fin[of None] obtain g1 where g1: "finishMove (moved gs fromId toId i j mc) None = Inr g1"
      by blast
    show ?thesis
    proof (cases "capturedKingOf (occupant (board gs ! j))")
      case None
      with i j Some l g1 show ?thesis by (auto simp: performMove_def Let_def)
    next
      case tc: (Some tcol)
      from fin[of "Some tcol"] obtain g2 where
        "finishMove (moved gs fromId toId i j mc) (Some tcol) = Inr g2" by blast
      with i j Some l tc show ?thesis by (auto simp: performMove_def Let_def)
    qed
  qed
qed

subsection \<open>What each step of a move leaves alone\<close>

lemma transformSquare_frame:
  "transformSquare sq g = (sq', g') \<Longrightarrow>
     \<exists>st kob kpu. g' = g\<lparr>stock := st, kingOnBoard := kob, kingProtectedUntil := kpu\<rparr>"
proof -
  have id: "g = g\<lparr>stock := stock g, kingOnBoard := kingOnBoard g, kingProtectedUntil := kingProtectedUntil g\<rparr>"
    by simp
  assume "transformSquare sq g = (sq', g')"
  then consider "g' = g"
    | c n where "g' = g\<lparr>stock := setCount (stock g) c n (stock g c n - 1)\<rparr>"
    | c st where "g' = g\<lparr>stock := st, kingOnBoard := (kingOnBoard g)(c := True),
                      kingProtectedUntil := (kingProtectedUntil g)(c := Some (moveNumber g))\<rparr>"
    | c st where "g' = g\<lparr>stock := st, kingOnBoard := (kingOnBoard g)(c := False)\<rparr>"
    | st where "g' = g\<lparr>stock := st\<rparr>"
    by (auto simp: transformSquare_def Let_def split: if_splits option.splits Occupant.splits)
  then show ?thesis
  proof cases
    case 1
    with id show ?thesis by metis
  next
    case 2
    then have "g' = g\<lparr>stock := setCount (stock g) c n (stock g c n - 1), kingOnBoard := kingOnBoard g, kingProtectedUntil := kingProtectedUntil g\<rparr>" by simp
    then show ?thesis by blast
  next
    case 3 then show ?thesis by blast
  next
    case 4
    then have "g' = g\<lparr>stock := st, kingOnBoard := (kingOnBoard g)(c := False), kingProtectedUntil := kingProtectedUntil g\<rparr>" by simp
    then show ?thesis by blast
  next
    case 5
    then have "g' = g\<lparr>stock := st, kingOnBoard := kingOnBoard g, kingProtectedUntil := kingProtectedUntil g\<rparr>" by simp
    then show ?thesis by blast
  qed
qed

lemma sweepLoop_frame:
  "sweepLoop b g = (b', g') \<Longrightarrow>
     \<exists>st kob kpu. g' = g\<lparr>stock := st, kingOnBoard := kob, kingProtectedUntil := kpu\<rparr>"
proof (induction b arbitrary: g b' g')
  case Nil
  then have "g' = g\<lparr>stock := stock g, kingOnBoard := kingOnBoard g, kingProtectedUntil := kingProtectedUntil g\<rparr>"
    by simp
  then show ?case by blast
next
  case (Cons sq sqs)
  obtain sq1 g1 where t: "transformSquare sq g = (sq1, g1)" by (cases "transformSquare sq g")
  obtain sqs2 g2 where l: "sweepLoop sqs g1 = (sqs2, g2)" by (cases "sweepLoop sqs g1")
  from Cons.prems t l have g': "g' = g2" by simp
  from transformSquare_frame[OF t] obtain st kob kpu where
    g1: "g1 = g\<lparr>stock := st, kingOnBoard := kob, kingProtectedUntil := kpu\<rparr>" by blast
  from Cons.IH[OF l] obtain st' kob' kpu' where
    "g2 = g1\<lparr>stock := st', kingOnBoard := kob', kingProtectedUntil := kpu'\<rparr>" by blast
  with g1 g' have "g' = g\<lparr>stock := st', kingOnBoard := kob', kingProtectedUntil := kpu'\<rparr>" by simp
  then show ?case by blast
qed

lemma applyAutoTransforms_frame:
  "\<exists>b st kob kpu. applyAutoTransforms g =
      g\<lparr>board := b, stock := st, kingOnBoard := kob, kingProtectedUntil := kpu\<rparr>"
proof -
  obtain b' g' where l: "sweepLoop (board g) g = (b', g')" by (cases "sweepLoop (board g) g")
  from sweepLoop_frame[OF l] obtain st kob kpu where
    "g' = g\<lparr>stock := st, kingOnBoard := kob, kingProtectedUntil := kpu\<rparr>" by blast
  with l have "applyAutoTransforms g = g\<lparr>board := b', stock := st, kingOnBoard := kob, kingProtectedUntil := kpu\<rparr>"
    by (simp add: applyAutoTransforms_def)
  then show ?thesis by blast
qed

lemma applyAutoTransforms_fields [simp]:
  "turn (applyAutoTransforms g) = turn g"
  "moveNumber (applyAutoTransforms g) = moveNumber g"
  "quietus (applyAutoTransforms g) = quietus g"
  "promotion (applyAutoTransforms g) = promotion g"
  "winner (applyAutoTransforms g) = winner g"
  "winReason (applyAutoTransforms g) = winReason g"
  "message (applyAutoTransforms g) = message g"
  "lastMove (applyAutoTransforms g) = lastMove g"
  "ai (applyAutoTransforms g) = ai g"
  "selected (applyAutoTransforms g) = selected g"
  using applyAutoTransforms_frame[of g] by auto

lemma expireSquare_frame:
  "expireSquare sq g = (sq', g') \<Longrightarrow> \<exists>kob. g' = g\<lparr>kingOnBoard := kob\<rparr>"
proof -
  assume "expireSquare sq g = (sq', g')"
  then consider "g' = g" | c where "g' = g\<lparr>kingOnBoard := (kingOnBoard g)(c := False)\<rparr>"
    by (auto simp: expireSquare_def Let_def split: if_splits option.splits Occupant.splits)
  then show ?thesis
  proof cases
    case 1
    then have "g' = g\<lparr>kingOnBoard := kingOnBoard g\<rparr>" by simp
    then show ?thesis by blast
  next
    case 2 then show ?thesis by blast
  qed
qed

lemma expireLoop_frame:
  "expireLoop b g = (b', g') \<Longrightarrow> \<exists>kob. g' = g\<lparr>kingOnBoard := kob\<rparr>"
proof (induction b arbitrary: g b' g')
  case Nil
  then have "g' = g\<lparr>kingOnBoard := kingOnBoard g\<rparr>" by simp
  then show ?case by blast
next
  case (Cons sq sqs)
  obtain sq1 g1 where t: "expireSquare sq g = (sq1, g1)" by (cases "expireSquare sq g")
  obtain sqs2 g2 where l: "expireLoop sqs g1 = (sqs2, g2)" by (cases "expireLoop sqs g1")
  from Cons.prems t l have g': "g' = g2" by simp
  from expireSquare_frame[OF t] obtain kob where g1: "g1 = g\<lparr>kingOnBoard := kob\<rparr>" by blast
  from Cons.IH[OF l] obtain kob' where "g2 = g1\<lparr>kingOnBoard := kob'\<rparr>" by blast
  with g1 g' have "g' = g\<lparr>kingOnBoard := kob'\<rparr>" by simp
  then show ?case by blast
qed

lemma expireLoans_frame: "\<exists>b kob. expireLoans g = g\<lparr>board := b, kingOnBoard := kob\<rparr>"
proof -
  obtain b' g' where l: "expireLoop (board g) g = (b', g')" by (cases "expireLoop (board g) g")
  from expireLoop_frame[OF l] obtain kob where "g' = g\<lparr>kingOnBoard := kob\<rparr>" by blast
  with l have "expireLoans g = g\<lparr>board := b', kingOnBoard := kob\<rparr>" by (simp add: expireLoans_def)
  then show ?thesis by blast
qed

lemma expireLoans_fields [simp]:
  "turn (expireLoans g) = turn g"
  "moveNumber (expireLoans g) = moveNumber g"
  "stock (expireLoans g) = stock g"
  "quietus (expireLoans g) = quietus g"
  "kingProtectedUntil (expireLoans g) = kingProtectedUntil g"
  "promotion (expireLoans g) = promotion g"
  "winner (expireLoans g) = winner g"
  "message (expireLoans g) = message g"
  using expireLoans_frame[of g] by auto

lemma setOccupant_nth:
  "occupant (setOccupant b j oc ! k) = (if k = j \<and> j < length b then oc else occupant (b ! k))"
proof (cases "j < length b")
  case True
  then show ?thesis by (simp add: setOccupant_def nth_list_update)
next
  case False
  then have "b[j := (b ! j)\<lparr>occupant := oc\<rparr>] = b" by (simp add: list_update_beyond)
  with False show ?thesis by (simp add: setOccupant_def)
qed

lemma setOccupant_length [simp]: "length (setOccupant b j oc) = length b"
  by (simp add: setOccupant_def)

lemma recordCapture_fields [simp]:
  "turn (recordCapture g j) = turn g"
  "moveNumber (recordCapture g j) = moveNumber g"
  "stock (recordCapture g j) = stock g"
  "kingProtectedUntil (recordCapture g j) = kingProtectedUntil g"
  "promotion (recordCapture g j) = promotion g"
  "winner (recordCapture g j) = winner g"
  "message (recordCapture g j) = message g"
  by (simp_all add: recordCapture_def Let_def split: Occupant.splits)

lemma clearLandedLoan_fields [simp]:
  "turn (clearLandedLoan g j) = turn g"
  "moveNumber (clearLandedLoan g j) = moveNumber g"
  "stock (clearLandedLoan g j) = stock g"
  "quietus (clearLandedLoan g j) = quietus g"
  "kingOnBoard (clearLandedLoan g j) = kingOnBoard g"
  "kingProtectedUntil (clearLandedLoan g j) = kingProtectedUntil g"
  "promotion (clearLandedLoan g j) = promotion g"
  "winner (clearLandedLoan g j) = winner g"
  "message (clearLandedLoan g j) = message g"
  by (simp_all add: clearLandedLoan_def Let_def split: Occupant.splits)

lemma landPiece_fields [simp]:
  "turn (landPiece g j) = turn g"
  "moveNumber (landPiece g j) = moveNumber g"
  "quietus (landPiece g j) = quietus g"
  "promotion (landPiece g j) = promotion g"
  "winner (landPiece g j) = winner g"
  "message (landPiece g j) = message g"
  by (simp_all add: landPiece_def Let_def split: Occupant.splits option.splits)

lemma landMetamorph_fields [simp]:
  "turn (landMetamorph g j) = turn g"
  "moveNumber (landMetamorph g j) = moveNumber g"
  "quietus (landMetamorph g j) = quietus g"
  "promotion (landMetamorph g j) = promotion g"
  "winner (landMetamorph g j) = winner g"
  "message (landMetamorph g j) = message g"
  by (simp_all add: landMetamorph_def Let_def split: Occupant.splits option.splits)

lemma flagPromotion_fields [simp]:
  "turn (flagPromotion g j) = turn g"
  "moveNumber (flagPromotion g j) = moveNumber g"
  "stock (flagPromotion g j) = stock g"
  "quietus (flagPromotion g j) = quietus g"
  "kingOnBoard (flagPromotion g j) = kingOnBoard g"
  "kingProtectedUntil (flagPromotion g j) = kingProtectedUntil g"
  "winner (flagPromotion g j) = winner g"
  "message (flagPromotion g j) = message g"
  by (simp_all add: flagPromotion_def Let_def split: Occupant.splits)

lemma moved_fields [simp]:
  "turn (moved gs fromId toId i j c) = otherColor (turn gs)"
  "moveNumber (moved gs fromId toId i j c) = moveNumber gs + 1"
  "winner (moved gs fromId toId i j c) = winner gs"
  "message (moved gs fromId toId i j c) = message gs"
  by (simp_all add: moved_def Let_def)

lemma clearLandedLoan_color:
  "colorOf (occupant (board (clearLandedLoan g j) ! k)) = colorOf (occupant (board g ! k))"
  by (auto simp: clearLandedLoan_def Let_def setOccupant_nth split: Occupant.splits)

lemma landPiece_color:
  "colorOf (occupant (board (landPiece g j) ! k)) = colorOf (occupant (board g ! k))"
  by (auto simp: landPiece_def Let_def setOccupant_nth split: Occupant.splits option.splits)

lemma landMetamorph_color:
  "colorOf (occupant (board (landMetamorph g j) ! k)) = colorOf (occupant (board g ! k))"
  by (auto simp: landMetamorph_def Let_def setOccupant_nth split: Occupant.splits option.splits)

lemma relocate_color:
  "j < length b \<Longrightarrow> colorOf (occupant (relocate b i j ! j)) = None \<or>
   colorOf (occupant (relocate b i j ! j)) = colorOf (occupant (b ! i))"
  by (auto simp: relocate_def setOccupant_nth)

lemma flagPromotion_promotion:
  "promotion (flagPromotion g j) = promotion g \<or>
   (\<exists>sid c. promotion (flagPromotion g j) = Some (sid, c) \<and> colorOf (occupant (board g ! j)) = Some c)"
  by (auto simp: flagPromotion_def Let_def split: Occupant.splits)

lemma moved_promotion:
  "j < length (board gs) \<Longrightarrow> promotion (moved gs fromId toId i j c) = promotion gs \<or>
   (\<exists>sid col. promotion (moved gs fromId toId i j c) = Some (sid, col)
       \<and> colorOf (occupant (board gs ! i)) = Some col)"
proof -
  assume j: "j < length (board gs)"
  let ?n2 = "(recordCapture gs j)\<lparr>board := relocate (board (recordCapture gs j)) i j,
                 lastMove := Some (fromId, toId, c)\<rparr>"
  let ?n5 = "landMetamorph (landPiece (clearLandedLoan ?n2 j) j) j"
  have p: "promotion (moved gs fromId toId i j c) = promotion (flagPromotion ?n5 j)"
    by (simp add: moved_def Let_def)
  have col: "colorOf (occupant (board ?n5 ! j)) = colorOf (occupant (relocate (board gs) i j ! j))"
    by (simp add: landMetamorph_color landPiece_color clearLandedLoan_color)
  have p5: "promotion ?n5 = promotion gs" by simp
  from flagPromotion_promotion[of ?n5 j] show ?thesis
    unfolding p p5 col using relocate_color[OF j, of i] by auto
qed


subsection \<open>Soft failures of the move applier\<close>

lemma squareOf_index:
  "findIndex (\<lambda>s. id_sq s = sid) (board gs) = Some i \<Longrightarrow> squareOf gs sid = board gs ! i"
  using findIndex_Some[of "\<lambda>s. id_sq s = sid" "board gs" i]
  by (simp add: squareOf_def findById_def)

lemma performMove_frozen: "winner gs \<noteq> None \<Longrightarrow> performMove gs fromId toId = Inr gs"
  by (simp add: performMove_def)

lemma performMove_not_mover:
  assumes "findIndex (\<lambda>s. id_sq s = fromId) (board gs) = Some i"
    and "colorOf (occupant (board gs ! i)) \<noteq> Some (turn gs)"
  shows "performMove gs fromId toId = Inr gs"
  using assms by (cases "colorOf (occupant (board gs ! i))") (simp_all add: performMove_def Let_def)

lemma performMove_illegal:
  assumes "winner gs = None"
    and "findIndex (\<lambda>s. id_sq s = fromId) (board gs) = Some i"
    and "colorOf (occupant (board gs ! i)) = Some (turn gs)"
    and "legalFor gs (board gs ! i) = Inr legal"
    and "findIndex (\<lambda>s. id_sq s = toId) (board gs) = Some j"
    and "(file_sq (board gs ! j), rank (board gs ! j)) \<notin> set legal"
  shows "performMove gs fromId toId = Inr (gs\<lparr>message := Some ''Illegal move.''\<rparr>)"
proof -
  from assms(6) have "\<not> (\<exists>m \<in> set legal. fst m = file_sq (board gs ! j) \<and> snd m = rank (board gs ! j))"
    by auto
  with assms(1-5) show ?thesis by (simp add: performMove_def Let_def)
qed

lemma performMove_no_own_king:
  assumes "winner gs = None"
    and "findIndex (\<lambda>s. id_sq s = fromId) (board gs) = Some i"
    and "colorOf (occupant (board gs ! i)) = Some (turn gs)"
    and "legalFor gs (board gs ! i) = Inr legal"
    and "findIndex (\<lambda>s. id_sq s = toId) (board gs) = Some j"
    and "(file_sq (board gs ! j), rank (board gs ! j)) \<in> set legal"
    and "capturedKingOf (occupant (board gs ! j)) = Some tc"
    and "\<not> kingOnBoard gs (turn gs)"
  shows "performMove gs fromId toId =
           Inr (gs\<lparr>message := Some ''You cannot take the king without your own king on the board.''\<rparr>)"
proof -
  from assms(6) have "\<not> (\<forall>m \<in> set legal. fst m = file_sq (board gs ! j) \<longrightarrow> snd m \<noteq> rank (board gs ! j))"
    by force
  moreover from assms(6) have "legal \<noteq> []" by auto
  ultimately show ?thesis using assms(1-5,7,8) by (auto simp: performMove_def Let_def)
qed

lemma performMove_protected:
  assumes "winner gs = None"
    and "findIndex (\<lambda>s. id_sq s = fromId) (board gs) = Some i"
    and "colorOf (occupant (board gs ! i)) = Some (turn gs)"
    and "legalFor gs (board gs ! i) = Inr legal"
    and "findIndex (\<lambda>s. id_sq s = toId) (board gs) = Some j"
    and "(file_sq (board gs ! j), rank (board gs ! j)) \<in> set legal"
    and "capturedKingOf (occupant (board gs ! j)) = Some tc"
    and "kingOnBoard gs (turn gs)"
    and "kingProtectedUntil gs tc = Some (moveNumber gs)"
  shows "performMove gs fromId toId = Inr (gs\<lparr>message := Some ''That king is protected this turn.''\<rparr>)"
proof -
  from assms(6) have "\<not> (\<forall>m \<in> set legal. fst m = file_sq (board gs ! j) \<longrightarrow> snd m \<noteq> rank (board gs ! j))"
    by force
  moreover from assms(6) have "legal \<noteq> []" by auto
  ultimately show ?thesis using assms(1-5,7,8,9) by (auto simp: performMove_def Let_def)
qed

lemma startState_wf: "wellFormed (board startState)"
  by code_simp

lemma performMove_not_mover_wf:
  assumes "wellFormed (board gs)" "fromId \<in> set squareIds"
    and "colorOf (occupant (squareOf gs fromId)) \<noteq> Some (turn gs)"
  shows "performMove gs fromId toId = Inr gs"
proof -
  obtain i where i: "findIndex (\<lambda>s. id_sq s = fromId) (board gs) = Some i"
    using wellFormed_findIndex[OF assms(1,2)] by blast
  from assms(3) show ?thesis using performMove_not_mover[OF i] unfolding squareOf_index[OF i] by blast
qed

text \<open>
  Claim C1, as the code has it. On a well-formed board and for square ids of the board,
  \<^verbatim>\<open>performMove\<close> never throws. When the game is over, when \<^verbatim>\<open>from\<close> is empty or when
  its occupant is not of the colour to move, the very state passed in is returned, with
  whatever \<^verbatim>\<open>message\<close> it had: no message is attached. When the destination is not in
  the legal-move set, when a king would be captured while the mover's own king is not
  on the board, and when the king is inside its protection window, the state is
  returned with only \<^verbatim>\<open>message\<close> replaced by the text shown: board, stock, quietus,
  turn, moveNumber, kingOnBoard and promotion are those of the input.
\<close>

theorem performMove_soft_failure:
  assumes wf: "wellFormed (board gs)"
    and ids: "fromId \<in> set squareIds" "toId \<in> set squareIds"
  shows "(winner gs \<noteq> None \<or> colorOf (occupant (squareOf gs fromId)) \<noteq> Some (turn gs)
            \<longrightarrow> performMove gs fromId toId = Inr gs)
       \<and> (winner gs = None \<and> colorOf (occupant (squareOf gs fromId)) = Some (turn gs) \<longrightarrow>
            (\<exists>legal. legalFor gs (squareOf gs fromId) = Inr legal
               \<and> ((file_sq (squareOf gs toId), rank (squareOf gs toId)) \<notin> set legal
                     \<longrightarrow> performMove gs fromId toId = Inr (gs\<lparr>message := Some ''Illegal move.''\<rparr>))
               \<and> ((file_sq (squareOf gs toId), rank (squareOf gs toId)) \<in> set legal
                    \<and> capturedKingOf (occupant (squareOf gs toId)) = Some tc
                    \<and> \<not> kingOnBoard gs (turn gs)
                     \<longrightarrow> performMove gs fromId toId = Inr (gs\<lparr>message :=
                            Some ''You cannot take the king without your own king on the board.''\<rparr>))
               \<and> ((file_sq (squareOf gs toId), rank (squareOf gs toId)) \<in> set legal
                    \<and> capturedKingOf (occupant (squareOf gs toId)) = Some tc
                    \<and> kingOnBoard gs (turn gs)
                    \<and> kingProtectedUntil gs tc = Some (moveNumber gs)
                     \<longrightarrow> performMove gs fromId toId =
                            Inr (gs\<lparr>message := Some ''That king is protected this turn.''\<rparr>))))
       \<and> (\<exists>g'. performMove gs fromId toId = Inr g')"
proof -
  obtain i where i: "findIndex (\<lambda>s. id_sq s = fromId) (board gs) = Some i"
    using wellFormed_findIndex[OF wf ids(1)] by blast
  obtain j where j: "findIndex (\<lambda>s. id_sq s = toId) (board gs) = Some j"
    using wellFormed_findIndex[OF wf ids(2)] by blast
  note sf = squareOf_index[OF i] and st = squareOf_index[OF j]
  have 1: "winner gs \<noteq> None \<or> colorOf (occupant (squareOf gs fromId)) \<noteq> Some (turn gs)
            \<longrightarrow> performMove gs fromId toId = Inr gs"
    using performMove_frozen performMove_not_mover[OF i] unfolding sf by blast
  have 2: "\<exists>legal. legalFor gs (squareOf gs fromId) = Inr legal
               \<and> ((file_sq (squareOf gs toId), rank (squareOf gs toId)) \<notin> set legal
                     \<longrightarrow> performMove gs fromId toId = Inr (gs\<lparr>message := Some ''Illegal move.''\<rparr>))
               \<and> ((file_sq (squareOf gs toId), rank (squareOf gs toId)) \<in> set legal
                    \<and> capturedKingOf (occupant (squareOf gs toId)) = Some tc
                    \<and> \<not> kingOnBoard gs (turn gs)
                     \<longrightarrow> performMove gs fromId toId = Inr (gs\<lparr>message :=
                            Some ''You cannot take the king without your own king on the board.''\<rparr>))
               \<and> ((file_sq (squareOf gs toId), rank (squareOf gs toId)) \<in> set legal
                    \<and> capturedKingOf (occupant (squareOf gs toId)) = Some tc
                    \<and> kingOnBoard gs (turn gs)
                    \<and> kingProtectedUntil gs tc = Some (moveNumber gs)
                     \<longrightarrow> performMove gs fromId toId =
                            Inr (gs\<lparr>message := Some ''That king is protected this turn.''\<rparr>))"
    if w: "winner gs = None" and c: "colorOf (occupant (squareOf gs fromId)) = Some (turn gs)"
  proof -
    from c have "occupant (board gs ! i) \<noteq> Empty" unfolding sf by auto
    then obtain legal where l: "legalFor gs (board gs ! i) = Inr legal"
      using legalFor_total[OF wellFormed_complete[OF wf]] by blast
    from c have c': "colorOf (occupant (board gs ! i)) = Some (turn gs)" unfolding sf .
    show ?thesis unfolding sf st
      using l performMove_illegal[OF w i c' l j] performMove_no_own_king[OF w i c' l j]
        performMove_protected[OF w i c' l j]
      by blast
  qed
  from 1 2 performMove_total[OF wf ids] show ?thesis by blast
qed

theorem performMove_soft_failure_witness:
  "wellFormed (board startState) \<and> ''a7'' \<in> set squareIds \<and> ''a5'' \<in> set squareIds
   \<and> winner startState = None
   \<and> colorOf (occupant (squareOf startState ''a7'')) = Some (turn startState)
   \<and> legalFor startState (squareOf startState ''a7'') = Inr [(0, 6)]
   \<and> (file_sq (squareOf startState ''a5''), rank (squareOf startState ''a5'')) = (0, 5)
   \<and> performMove startState ''a7'' ''a5'' = Inr (startState\<lparr>message := Some ''Illegal move.''\<rparr>)"
proof -
  have 1: "''a7'' \<in> set squareIds" and 2: "''a5'' \<in> set squareIds" by code_simp+
  have 3: "winner startState = None" by code_simp
  have 4: "colorOf (occupant (squareOf startState ''a7'')) = Some (turn startState)" by code_simp
  have 5: "legalFor startState (squareOf startState ''a7'') = Inr [(0, 6)]" by code_simp
  have 6: "(file_sq (squareOf startState ''a5''), rank (squareOf startState ''a5'')) = (0, 5)"
    by code_simp
  from performMove_soft_failure[OF startState_wf 1 2, where tc = White] 3 4 5 6
  have "performMove startState ''a7'' ''a5'' = Inr (startState\<lparr>message := Some ''Illegal move.''\<rparr>)"
    by auto
  with startState_wf 1 2 3 4 5 6 show ?thesis by simp
qed

text \<open>
  The claim as worded (every rejection is annotated with a message) fails: a move from
  the empty square a4 of the initial game returns the state as it is, and its message
  is still unset.
\<close>

theorem unannotated_rejection:
  "occupant (squareOf startState ''a4'') = Empty
   \<and> performMove startState ''a4'' ''a5'' = Inr startState
   \<and> message startState = None"
proof -
  have 1: "occupant (squareOf startState ''a4'') = Empty" by code_simp
  have 2: "''a4'' \<in> set squareIds" by code_simp
  have 3: "message startState = None" by code_simp
  from 1 have "colorOf (occupant (squareOf startState ''a4'')) \<noteq> Some (turn startState)" by simp
  from performMove_not_mover_wf[OF startState_wf 2 this] 1 3 show ?thesis by simp
qed

subsection \<open>The ways a move returns\<close>

lemma finishMove_cases:
  assumes "finishMove n ck = Inr g'"
  obtains (running) "detectWin ((applyAutoTransforms n)\<lparr>selected := None, message := None\<rparr>)
                        (otherColor (turn n)) ck = Inr None"
            "g' = (applyAutoTransforms n)\<lparr>selected := None, message := None\<rparr>"
        | (won) w reason where
            "detectWin ((applyAutoTransforms n)\<lparr>selected := None, message := None\<rparr>)
                        (otherColor (turn n)) ck = Inr (Some (w, reason))"
            "g' = (applyAutoTransforms n)\<lparr>selected := None,
                     winner := Some w, winReason := Some reason,
                     message := Some (''Winner: '' @ colorName w @ '' ('' @ reason @ '')'')\<rparr>"
proof -
  let ?n = "(applyAutoTransforms n)\<lparr>selected := None, message := None\<rparr>"
  from assms obtain win where d: "detectWin ?n (otherColor (turn n)) ck = Inr win"
    by (auto simp: finishMove_def Let_def bindE_Inr)
  show thesis
  proof (cases win)
    case None
    with d assms have "g' = ?n" by (simp add: finishMove_def Let_def)
    with d None running show ?thesis by simp
  next
    case (Some p)
    obtain w reason where p: "p = (w, reason)" by (cases p)
    with d Some assms have "g' = ?n\<lparr>winner := Some w, winReason := Some reason,
                     message := Some (''Winner: '' @ colorName w @ '' ('' @ reason @ '')'')\<rparr>"
      by (simp add: finishMove_def Let_def)
    with d Some p won show ?thesis by simp
  qed
qed

lemma finishMove_fields:
  assumes "finishMove n ck = Inr g'"
  shows "board g' = board (applyAutoTransforms n)"
    and "turn g' = turn n" and "moveNumber g' = moveNumber n"
    and "stock g' = stock (applyAutoTransforms n)" and "quietus g' = quietus n"
    and "kingOnBoard g' = kingOnBoard (applyAutoTransforms n)"
    and "kingProtectedUntil g' = kingProtectedUntil (applyAutoTransforms n)"
    and "promotion g' = promotion n"
  using assms by (cases rule: finishMove_cases; simp)+

text \<open>The ways \<^verbatim>\<open>performMove\<close> returns.\<close>

lemma performMove_cases:
  assumes "performMove gs fromId toId = Inr gs'"
  obtains (same) "gs' = gs"
        | (rejected) m where "gs' = gs\<lparr>message := Some m\<rparr>" "m \<noteq> []"
        | (applied) i j legal where
            "winner gs = None"
            "findIndex (\<lambda>s. id_sq s = fromId) (board gs) = Some i"
            "findIndex (\<lambda>s. id_sq s = toId) (board gs) = Some j"
            "colorOf (occupant (board gs ! i)) = Some (turn gs)"
            "legalFor gs (board gs ! i) = Inr legal"
            "(file_sq (board gs ! j), rank (board gs ! j)) \<in> set legal"
            "\<forall>tc. capturedKingOf (occupant (board gs ! j)) = Some tc \<longrightarrow>
                  kingOnBoard gs (turn gs) \<and> kingProtectedUntil gs tc \<noteq> Some (moveNumber gs)"
            "finishMove (moved gs fromId toId i j (turn gs)) (capturedKingOf (occupant (board gs ! j)))
               = Inr gs'"
proof (cases "winner gs = None")
  case False
  with assms have "gs' = gs" by (simp add: performMove_def)
  then show ?thesis by (rule same)
next
  case w: True
  from assms w obtain i where i: "findIndex (\<lambda>s. id_sq s = fromId) (board gs) = Some i"
    by (cases "findIndex (\<lambda>s. id_sq s = fromId) (board gs)") (auto simp: performMove_def)
  show ?thesis
  proof (cases "colorOf (occupant (board gs ! i)) = Some (turn gs)")
    case False
    from performMove_not_mover[OF i False] assms have "gs' = gs" by simp
    then show ?thesis by (rule same)
  next
    case c: True
    from assms w i c obtain legal where l: "legalFor gs (board gs ! i) = Inr legal"
      by (cases "legalFor gs (board gs ! i)") (auto simp: performMove_def Let_def)
    show ?thesis
    proof (cases "legal = []")
      case True
      with assms w i c l have "gs' = gs\<lparr>message := Some ''Illegal move.''\<rparr>"
        by (simp add: performMove_def Let_def)
      then show ?thesis by (rule rejected) simp
    next
      case ne: False
      from assms w i c l ne obtain j where j: "findIndex (\<lambda>s. id_sq s = toId) (board gs) = Some j"
        by (cases "findIndex (\<lambda>s. id_sq s = toId) (board gs)") (auto simp: performMove_def Let_def)
      show ?thesis
      proof (cases "(file_sq (board gs ! j), rank (board gs ! j)) \<in> set legal")
        case False
        from performMove_illegal[OF w i c l j False] assms
        have "gs' = gs\<lparr>message := Some ''Illegal move.''\<rparr>" by simp
        then show ?thesis by (rule rejected) simp
      next
        case m: True
        then have ex: "\<not> (\<forall>m \<in> set legal. fst m = file_sq (board gs ! j) \<longrightarrow> snd m \<noteq> rank (board gs ! j))"
          by force
        show ?thesis
        proof (cases "capturedKingOf (occupant (board gs ! j))")
          case None
          with assms w i c l ne j ex
          have "finishMove (moved gs fromId toId i j (turn gs)) (capturedKingOf (occupant (board gs ! j))) = Inr gs'"
            by (auto simp: performMove_def Let_def)
          with w i j c l m None show ?thesis by (intro applied) auto
        next
          case (Some tc)
          show ?thesis
          proof (cases "kingOnBoard gs (turn gs)")
            case False
            from performMove_no_own_king[OF w i c l j m Some False] assms
            show ?thesis by (intro rejected) auto
          next
            case k: True
            show ?thesis
            proof (cases "kingProtectedUntil gs tc = Some (moveNumber gs)")
              case True
              from performMove_protected[OF w i c l j m Some k True] assms
              show ?thesis by (intro rejected) auto
            next
              case False
              with assms w i c l ne j ex Some k
              have "finishMove (moved gs fromId toId i j (turn gs)) (capturedKingOf (occupant (board gs ! j))) = Inr gs'"
                by (auto simp: performMove_def Let_def)
              with w i j c l m Some k False show ?thesis by (intro applied) auto
            qed
          qed
        qed
      qed
    qed
  qed
qed

subsection \<open>A pending promotion and the next move\<close>

lemma returned_resultOf: "returned r \<Longrightarrow> r = Inr (resultOf r)"
  by (cases r) (simp_all add: returned_def resultOf_def)

text \<open>
  Claim C7, as the code has it. \<^verbatim>\<open>performMove\<close> never reads \<^verbatim>\<open>promotion\<close>. A move
  that opens a promotion request opens it for the colour that moved and passes the
  turn to the other colour; while the turn is not with the colour of the request, a
  move of an occupant of that colour returns the state unchanged (the turn check).
\<close>

theorem promotion_blocks_off_turn:
  "(wellFormed (board gs) \<and> fromId \<in> set squareIds
      \<and> promotion gs = Some (sq, c) \<and> turn gs \<noteq> c
      \<and> colorOf (occupant (squareOf gs fromId)) = Some c
        \<longrightarrow> performMove gs fromId toId = Inr gs)
   \<and> (performMove gs fromId toId = Inr gs' \<and> promotion gs' \<noteq> promotion gs
        \<longrightarrow> (\<exists>sid. promotion gs' = Some (sid, turn gs)) \<and> turn gs' = otherColor (turn gs))"
proof -
  have 1: "performMove gs fromId toId = Inr gs"
    if "wellFormed (board gs)" "fromId \<in> set squareIds" "turn gs \<noteq> c"
       "colorOf (occupant (squareOf gs fromId)) = Some c"
    using performMove_not_mover_wf[OF that(1,2)] that(3,4) by simp
  have 2: "(\<exists>sid. promotion gs' = Some (sid, turn gs)) \<and> turn gs' = otherColor (turn gs)"
    if r: "performMove gs fromId toId = Inr gs'" and p: "promotion gs' \<noteq> promotion gs"
    using r
  proof (cases rule: performMove_cases)
    case same
    with p show ?thesis by simp
  next
    case (rejected m)
    with p show ?thesis by simp
  next
    case (applied i j legal)
    from findIndex_Some[OF applied(3)] have j: "j < length (board gs)" by simp
    note f = finishMove_fields[OF applied(8)]
    from moved_promotion[OF j, of fromId toId i "turn gs"] p applied(4) f(8) f(2)
    show ?thesis by auto
  qed
  from 1 2 show ?thesis by blast
qed

theorem promotion_blocks_off_turn_witness:
  "wellFormed (board promoJustSet) \<and> ''h7'' \<in> set squareIds
   \<and> promotion promoJustSet = Some (''a1'', White) \<and> turn promoJustSet = Black
   \<and> colorOf (occupant (squareOf promoJustSet ''h7'')) = Some White
   \<and> performMove promoJustSet ''h7'' ''h6'' = Inr promoJustSet
   \<and> performMove promoStart ''a2'' ''a1'' = Inr promoJustSet
   \<and> promotion promoStart = None \<and> turn promoStart = White"
proof -
  have wf: "wellFormed (board promoJustSet)" by code_simp
  have id: "''h7'' \<in> set squareIds" by code_simp
  have p: "promotion promoJustSet = Some (''a1'', White)" by code_simp
  have t: "turn promoJustSet = Black" by code_simp
  have c: "colorOf (occupant (squareOf promoJustSet ''h7'')) = Some White" by code_simp
  have r: "performMove promoStart ''a2'' ''a1'' = Inr promoJustSet"
    unfolding promoJustSet_def by (rule returned_resultOf) code_simp
  have p0: "promotion promoStart = None" and t0: "turn promoStart = White" by code_simp+
  from promotion_blocks_off_turn[of promoJustSet "''h7''" "''a1''" White "''h6''"] wf id p t c
  have a: "performMove promoJustSet ''h7'' ''h6'' = Inr promoJustSet" by simp
  from promotion_blocks_off_turn[of promoStart "''a2''" _ _ "''a1''" promoJustSet] r p p0
  have "turn promoJustSet = otherColor (turn promoStart)" by simp
  with wf id p t c a r p0 t0 show ?thesis by simp
qed

text \<open>
  The claim as worded fails once the turn is back: after a2-a1 (request for White) and
  Black's reply h2-h3, White moves h7-h6 with the request still pending, and the move
  is applied.
\<close>

theorem promotion_does_not_block:
  "view promoPending [''h7'', ''h6'']
     = (White, 7, Some (''a1'', White), None, None, [Metamorph White, Empty])
   \<and> returned (performMove promoPending ''h7'' ''h6'')
   \<and> view (resultOf (performMove promoPending ''h7'' ''h6'')) [''h7'', ''h6'']
     = (Black, 8, Some (''a1'', White), None, None, [Empty, Metamorph White])"
  by code_simp

subsection \<open>The protection window of a king\<close>


lemma sweepLoop_length: "sweepLoop b g = (b', g') \<Longrightarrow> length b' = length b"
proof (induction b arbitrary: g b' g')
  case Nil
  then show ?case by simp
next
  case (Cons sq sqs)
  obtain sq1 g1 where t: "transformSquare sq g = (sq1, g1)" by (cases "transformSquare sq g")
  obtain sqs2 g2 where l: "sweepLoop sqs g1 = (sqs2, g2)" by (cases "sweepLoop sqs g1")
  from Cons.prems t l have "b' = sq1 # sqs2" by simp
  with Cons.IH[OF l] show ?case by simp
qed



lemma applyAutoTransforms_length [simp]: "length (board (applyAutoTransforms g)) = length (board g)"
  using sweepLoop_length[of "board g" g]
  by (cases "sweepLoop (board g) g") (simp add: applyAutoTransforms_def)








lemma geometry_length: "geometry b = geometry b' \<Longrightarrow> length b = length b'"
  unfolding geometry_def by (rule map_eq_imp_length_eq)

lemma moved_length [simp]: "length (board (moved gs fromId toId i j c)) = length (board gs)"
  by (rule geometry_length) simp





subsection \<open>Expiry of promotion loans\<close>














lemma otherColor_twice [simp]: "otherColor (otherColor x) = x"
  by (cases x) (simp_all add: otherColor_def)

lemma otherColor_neq [simp]: "otherColor x \<noteq> x" "x \<noteq> otherColor x"
  by (cases x; simp add: otherColor_def)+










subsection \<open>Stock and pieces on the board\<close>

lemma nonLoanCount_Nil [simp]: "nonLoanCount [] c t = 0"
  by (simp add: nonLoanCount_def)

lemma nonLoanCount_Cons [simp]:
  "nonLoanCount (sq # sqs) c t = cnt c t (occupant sq) + nonLoanCount sqs c t"
  by (simp add: nonLoanCount_def cnt_def)

lemma cnt_bounds: "0 \<le> cnt c t oc" "cnt c t oc \<le> 1"
  by (simp_all add: cnt_def)

lemma nonLoanCount_nonneg: "0 \<le> nonLoanCount b c t"
  by (simp add: nonLoanCount_def)

lemma setCount_apply:
  "setCount tab c t v c' t' = (if c' = c \<and> t' = t then v else tab c' t')"
  by (simp add: setCount_def)

text \<open>One iteration of the sweep, on a square that holds no loan.\<close>

lemma transformSquare_supply:
  assumes t: "transformSquare sq g = (sq', g')"
    and nl: "inZone (rank sq) \<longrightarrow> \<not> isLoan (occupant sq)"
    and room: "\<forall>c t. stock g c t + cnt c t (occupant sq) \<le> INITIAL_COUNTS t"
  shows "stock g' c t + cnt c t (occupant sq') = stock g c t + cnt c t (occupant sq)"
proof (cases "occupant sq")
  case Empty
  with t show ?thesis by (auto simp: transformSquare_def split: if_splits option.splits)
next
  case (Metamorph col)
  with t show ?thesis
    by (auto simp: transformSquare_def Let_def setCount_apply cnt_def split: if_splits option.splits)
next
  case (Piece col cur born mr rb)
  show ?thesis
  proof (cases "inZone (rank sq)")
    case False
    with t show ?thesis by (simp add: transformSquare_def)
  next
    case True
    with nl Piece have mr: "\<not> mr" by simp
    from room[rule_format, of col cur] Piece mr have "stock g col cur + 1 \<le> INITIAL_COUNTS cur"
      by (simp add: cnt_def)
    then have m: "min (INITIAL_COUNTS cur) (stock g col cur + 1) = stock g col cur + 1" by simp
    from t Piece mr True m show ?thesis
      by (auto simp: transformSquare_def Let_def setCount_apply cnt_def split: if_splits option.splits)
  qed
qed

lemma sweepLoop_supply:
  assumes "sweepLoop b g = (b', g')"
    and "\<forall>sq \<in> set b. inZone (rank sq) \<longrightarrow> \<not> isLoan (occupant sq)"
    and "\<forall>c t. stock g c t + nonLoanCount b c t \<le> INITIAL_COUNTS t"
  shows "stock g' c t + nonLoanCount b' c t = stock g c t + nonLoanCount b c t"
  using assms
proof (induction b arbitrary: g b' g' c t)
  case Nil
  then show ?case by simp
next
  case (Cons sq sqs)
  obtain sq1 g1 where t: "transformSquare sq g = (sq1, g1)" by (cases "transformSquare sq g")
  obtain sqs2 g2 where l: "sweepLoop sqs g1 = (sqs2, g2)" by (cases "sweepLoop sqs g1")
  from Cons.prems(1) t l have b': "b' = sq1 # sqs2" and g': "g' = g2" by simp_all
  have nl: "inZone (rank sq) \<longrightarrow> \<not> isLoan (occupant sq)" using Cons.prems(2) by simp
  have room: "\<forall>c t. stock g c t + cnt c t (occupant sq) \<le> INITIAL_COUNTS t"
  proof (intro allI)
    fix c t
    from Cons.prems(3)[rule_format, of c t] nonLoanCount_nonneg[of sqs c t]
    show "stock g c t + cnt c t (occupant sq) \<le> INITIAL_COUNTS t" by simp
  qed
  note one = transformSquare_supply[OF t nl room]
  have tail: "\<forall>c t. stock g1 c t + nonLoanCount sqs c t \<le> INITIAL_COUNTS t"
  proof (intro allI)
    fix c t
    from one[of c t] cnt_bounds(1)[of c t "occupant sq1"] Cons.prems(3)[rule_format, of c t]
    show "stock g1 c t + nonLoanCount sqs c t \<le> INITIAL_COUNTS t" by simp
  qed
  have nls: "\<forall>sq \<in> set sqs. inZone (rank sq) \<longrightarrow> \<not> isLoan (occupant sq)"
    using Cons.prems(2) by simp
  from Cons.IH[OF l nls tail, of c t] one[of c t] b' g' show ?case by simp
qed

lemma applyAutoTransforms_supply:
  assumes "\<forall>sq \<in> set (board g). inZone (rank sq) \<longrightarrow> \<not> isLoan (occupant sq)"
    and "\<forall>c t. supplyOf g c t \<le> INITIAL_COUNTS t"
  shows "supplyOf (applyAutoTransforms g) c t = supplyOf g c t"
proof -
  obtain b' g' where l: "sweepLoop (board g) g = (b', g')" by (cases "sweepLoop (board g) g")
  from sweepLoop_supply[OF l assms(1), of c t] assms(2) l show ?thesis
    by (simp add: supplyOf_def applyAutoTransforms_def)
qed

lemma transformSquare_stock_le:
  assumes "transformSquare sq g = (sq', g')" and "\<forall>c t. stock g c t \<le> INITIAL_COUNTS t"
  shows "stock g' c t \<le> INITIAL_COUNTS t"
proof -
  have a: "stock g c' x \<le> INITIAL_COUNTS x" for c' x using assms(2) by blast
  have b: "stock g c' x - 1 \<le> INITIAL_COUNTS x" for c' x using a[of c' x] by linarith
  from assms(1) a b show ?thesis
    by (auto simp: transformSquare_def Let_def setCount_apply split: if_splits option.splits Occupant.splits)
qed

lemma sweepLoop_stock_le:
  "sweepLoop b g = (b', g') \<Longrightarrow> \<forall>c t. stock g c t \<le> INITIAL_COUNTS t \<Longrightarrow>
     \<forall>c t. stock g' c t \<le> INITIAL_COUNTS t"
proof (induction b arbitrary: g b' g')
  case Nil
  then show ?case by simp
next
  case (Cons sq sqs)
  obtain sq1 g1 where t: "transformSquare sq g = (sq1, g1)" by (cases "transformSquare sq g")
  obtain sqs2 g2 where l: "sweepLoop sqs g1 = (sqs2, g2)" by (cases "sweepLoop sqs g1")
  from Cons.prems(1) t l have g': "g' = g2" by simp
  from transformSquare_stock_le[OF t Cons.prems(2)] have "\<forall>c t. stock g1 c t \<le> INITIAL_COUNTS t"
    by blast
  from Cons.IH[OF l this] g' show ?case by simp
qed

lemma applyAutoTransforms_stock_le:
  "\<forall>c t. stock g c t \<le> INITIAL_COUNTS t \<Longrightarrow>
     \<forall>c t. stock (applyAutoTransforms g) c t \<le> INITIAL_COUNTS t"
  using sweepLoop_stock_le[of "board g" g]
  by (cases "sweepLoop (board g) g") (simp add: applyAutoTransforms_def)

lemma cnt_le_count: "j < length b \<Longrightarrow> cnt c t (occupant (b ! j)) \<le> nonLoanCount b c t"
proof (induction b arbitrary: j)
  case Nil
  then show ?case by simp
next
  case (Cons sq sqs)
  show ?case
  proof (cases j)
    case 0
    with nonLoanCount_nonneg[of sqs c t] show ?thesis by simp
  next
    case (Suc j')
    with Cons.prems Cons.IH[of j'] cnt_bounds(1)[of c t "occupant sq"] show ?thesis by simp
  qed
qed

lemma count_setOccupant:
  "j < length b \<Longrightarrow>
     nonLoanCount (setOccupant b j oc) c t = nonLoanCount b c t - cnt c t (occupant (b ! j)) + cnt c t oc"
proof (induction b arbitrary: j)
  case Nil
  then show ?case by simp
next
  case (Cons sq sqs)
  show ?case
  proof (cases j)
    case 0
    then show ?thesis by (simp add: setOccupant_def)
  next
    case (Suc j')
    with Cons.prems Cons.IH[of j'] show ?thesis by (simp add: setOccupant_def)
  qed
qed

lemma noLoans_setOccupant:
  assumes "\<forall>sq \<in> set b. \<not> isLoan (occupant sq)" and "\<not> isLoan oc"
  shows "\<forall>sq \<in> set (setOccupant b j oc). \<not> isLoan (occupant sq)"
proof
  fix sq assume "sq \<in> set (setOccupant b j oc)"
  then have "sq \<in> insert ((b ! j)\<lparr>occupant := oc\<rparr>) (set b)"
    unfolding setOccupant_def using set_update_subset_insert by fastforce
  with assms show "\<not> isLoan (occupant sq)" by auto
qed

lemma noLoans_setOccupantD:
  "\<forall>sq \<in> set b. \<not> isLoan (occupant sq) \<Longrightarrow> \<not> isLoan oc \<Longrightarrow>
     sq \<in> set (setOccupant b j oc) \<Longrightarrow> isLoan (occupant sq) \<Longrightarrow> False"
  using noLoans_setOccupant[of b oc j] by blast

lemma noLoans_nth: "\<forall>sq \<in> set b. \<not> isLoan (occupant sq) \<Longrightarrow> j < length b \<Longrightarrow> \<not> isLoan (occupant (b ! j))"
  by simp

lemma cnt_not_piece: "\<not> isPiece oc \<Longrightarrow> cnt c t oc = 0"
  by (cases oc) (simp_all add: cnt_def)

lemma relocate_count:
  assumes "i < length b" "j < length b" "i \<noteq> j" "\<not> isPiece (occupant (b ! j))"
  shows "nonLoanCount (relocate b i j) c t = nonLoanCount b c t"
proof -
  have "occupant (setOccupant b j (occupant (b ! i)) ! i) = occupant (b ! i)"
    using assms(3) by (simp add: setOccupant_nth)
  then show ?thesis
    using assms count_setOccupant[of j b "occupant (b ! i)" c t]
      count_setOccupant[of i "setOccupant b j (occupant (b ! i))" Empty c t]
    by (simp add: relocate_def cnt_not_piece)
qed

lemma relocate_noLoans:
  assumes "\<forall>sq \<in> set b. \<not> isLoan (occupant sq)" "i < length b"
  shows "\<forall>sq \<in> set (relocate b i j). \<not> isLoan (occupant sq)"
  unfolding relocate_def
  by (intro noLoans_setOccupant) (use assms in \<open>simp_all\<close>)

lemma clearLandedLoan_noLoans:
  assumes "\<forall>sq \<in> set (board g). \<not> isLoan (occupant sq)" "j < length (board g)"
  shows "clearLandedLoan g j = g"
  using noLoans_nth[OF assms]
  by (auto simp: clearLandedLoan_def Let_def split: Occupant.splits)

lemma landPiece_supply:
  assumes j: "j < length (board g)"
    and nl: "\<forall>sq \<in> set (board g). \<not> isLoan (occupant sq)"
    and le: "\<forall>c t. supplyOf g c t \<le> INITIAL_COUNTS t"
  shows "supplyOf (landPiece g j) c t = supplyOf g c t"
    and "\<forall>sq \<in> set (board (landPiece g j)). \<not> isLoan (occupant sq)"
proof -
  show "\<forall>sq \<in> set (board (landPiece g j)). \<not> isLoan (occupant sq)"
    using nl
    by (auto simp: landPiece_def Let_def split: Occupant.splits option.splits
        dest: noLoans_setOccupantD[OF nl, rotated])
  show "supplyOf (landPiece g j) c t = supplyOf g c t"
  proof (cases "occupant (board g ! j)")
    case Empty
    then show ?thesis by (simp add: landPiece_def)
  next
    case (Metamorph col)
    then show ?thesis by (simp add: landPiece_def)
  next
    case (Piece col cur born mr rb)
    with noLoans_nth[OF nl j] have mr: "\<not> mr" by simp
    from cnt_le_count[OF j, of col cur] Piece mr have "1 \<le> nonLoanCount (board g) col cur"
      by (simp add: cnt_def)
    with le[rule_format, of col cur] have "stock g col cur + 1 \<le> INITIAL_COUNTS cur"
      by (simp add: supplyOf_def)
    then have m: "min (INITIAL_COUNTS cur) (stock g col cur + 1) = stock g col cur + 1" by simp
    from Piece mr m j show ?thesis
      by (auto simp: landPiece_def Let_def supplyOf_def setCount_apply count_setOccupant cnt_def
          split: option.splits)
  qed
qed

lemma landMetamorph_supply:
  assumes j: "j < length (board g)"
    and nl: "\<forall>sq \<in> set (board g). \<not> isLoan (occupant sq)"
  shows "supplyOf (landMetamorph g j) c t = supplyOf g c t"
    and "\<forall>sq \<in> set (board (landMetamorph g j)). \<not> isLoan (occupant sq)"
proof -
  show "\<forall>sq \<in> set (board (landMetamorph g j)). \<not> isLoan (occupant sq)"
    using nl
    by (auto simp: landMetamorph_def Let_def split: Occupant.splits option.splits
        dest: noLoans_setOccupantD[OF nl, rotated])
  show "supplyOf (landMetamorph g j) c t = supplyOf g c t"
    using j
    by (auto simp: landMetamorph_def Let_def supplyOf_def setCount_apply count_setOccupant cnt_def
          split: option.splits Occupant.splits)
qed

lemma expireSquare_nonloan: "\<not> isLoan (occupant sq) \<Longrightarrow> expireSquare sq g = (sq, g)"
  by (cases "occupant sq") (auto simp: expireSquare_def split: option.splits)

lemma expireLoop_noLoans:
  "\<forall>sq \<in> set b. \<not> isLoan (occupant sq) \<Longrightarrow> expireLoop b g = (b, g)"
  by (induction b) (simp_all add: expireSquare_nonloan)

lemma expireLoans_noLoans:
  "\<forall>sq \<in> set (board g). \<not> isLoan (occupant sq) \<Longrightarrow> expireLoans g = g"
  by (simp add: expireLoans_def expireLoop_noLoans)

lemma transformSquare_noLoan:
  "transformSquare sq g = (sq', g') \<Longrightarrow> \<not> isLoan (occupant sq) \<Longrightarrow> \<not> isLoan (occupant sq')"
  by (auto simp: transformSquare_def Let_def split: if_splits option.splits Occupant.splits)

lemma sweepLoop_noLoans:
  "sweepLoop b g = (b', g') \<Longrightarrow> \<forall>sq \<in> set b. \<not> isLoan (occupant sq) \<Longrightarrow>
     \<forall>sq \<in> set b'. \<not> isLoan (occupant sq)"
proof (induction b arbitrary: g b' g')
  case Nil
  then show ?case by simp
next
  case (Cons sq sqs)
  obtain sq1 g1 where t: "transformSquare sq g = (sq1, g1)" by (cases "transformSquare sq g")
  obtain sqs2 g2 where l: "sweepLoop sqs g1 = (sqs2, g2)" by (cases "sweepLoop sqs g1")
  from Cons.prems(1) t l have b': "b' = sq1 # sqs2" by simp
  from Cons.IH[OF l] Cons.prems(2) transformSquare_noLoan[OF t] b' show ?case by simp
qed

lemma applyAutoTransforms_noLoans:
  "\<forall>sq \<in> set (board g). \<not> isLoan (occupant sq) \<Longrightarrow>
     \<forall>sq \<in> set (board (applyAutoTransforms g)). \<not> isLoan (occupant sq)"
  using sweepLoop_noLoans[of "board g" g]
  by (cases "sweepLoop (board g) g") (simp add: applyAutoTransforms_def)


lemma recordCapture_not_piece: "\<not> isPiece (occupant (board g ! j)) \<Longrightarrow> recordCapture g j = g"
  by (cases "occupant (board g ! j)") (simp_all add: recordCapture_def)

lemma flagPromotion_stock_board [simp]: "supplyOf (flagPromotion g j) c t = supplyOf g c t"
  by (simp add: supplyOf_def)

text \<open>The state before the sweep, after a move onto a square that holds no piece.\<close>

lemma moved_conserves:
  assumes i: "i < length (board gs)" and j: "j < length (board gs)" and ij: "i \<noteq> j"
    and np: "\<not> isPiece (occupant (board gs ! j))"
    and nl: "\<forall>sq \<in> set (board gs). \<not> isLoan (occupant sq)"
    and le: "\<forall>c t. supplyOf gs c t \<le> INITIAL_COUNTS t"
  shows "supplyOf (moved gs fromId toId i j mc) c t = supplyOf gs c t"
    and "\<forall>sq \<in> set (board (moved gs fromId toId i j mc)). \<not> isLoan (occupant sq)"
proof -
  define n2 where "n2 = gs\<lparr>board := relocate (board gs) i j, lastMove := Some (fromId, toId, mc)\<rparr>"
  define n4 where "n4 = landPiece n2 j"
  define n5 where "n5 = landMetamorph n4 j"
  define n8 where "n8 = (flagPromotion n5 j)\<lparr>turn := otherColor (turn (flagPromotion n5 j)),
                 moveNumber := moveNumber (flagPromotion n5 j) + 1\<rparr>"
  have len2: "j < length (board n2)" using j geometry_length[OF relocate_geometry, of "board gs" i j]
    by (simp add: n2_def)
  have nl2: "\<forall>sq \<in> set (board n2). \<not> isLoan (occupant sq)"
    using relocate_noLoans[OF nl i] by (simp add: n2_def)
  have s2: "supplyOf n2 c t = supplyOf gs c t" for c t
    using relocate_count[OF i j ij np] by (simp add: n2_def supplyOf_def)
  then have le2: "\<forall>c t. supplyOf n2 c t \<le> INITIAL_COUNTS t" using le by simp
  have n3: "clearLandedLoan n2 j = n2" using clearLandedLoan_noLoans[OF nl2 len2] .
  note p = landPiece_supply[OF len2 nl2 le2, folded n4_def]
  have len4: "j < length (board n4)"
    using len2 geometry_length[OF landPiece_geometry, of n2 j] by (simp add: n4_def)
  note q = landMetamorph_supply[OF len4 p(2), folded n5_def]
  have nl8: "\<forall>sq \<in> set (board n8). \<not> isLoan (occupant sq)" using q(2) by (simp add: n8_def)
  have s8: "supplyOf n8 c t = supplyOf gs c t" for c t
    using q(1)[of c t] p(1)[of c t] s2[of c t] by (simp add: n8_def supplyOf_def)
  have m: "moved gs fromId toId i j mc = n8"
    using expireLoans_noLoans[OF nl8]
    by (simp add: moved_def Let_def recordCapture_not_piece[OF np] n3[unfolded n2_def]
        n2_def n4_def n5_def n8_def)
  show "supplyOf (moved gs fromId toId i j mc) c t = supplyOf gs c t" unfolding m by (rule s8)
  show "\<forall>sq \<in> set (board (moved gs fromId toId i j mc)). \<not> isLoan (occupant sq)"
    unfolding m by (rule nl8)
qed

lemma finishMove_supply:
  assumes "finishMove n ck = Inr g'"
  shows "supplyOf g' c t = supplyOf (applyAutoTransforms n) c t"
  using finishMove_fields[OF assms] by (simp add: supplyOf_def)

lemma performMove_conserves:
  assumes r: "performMove gs fromId toId = Inr gs'"
    and np: "\<not> isPiece (occupant (squareOf gs toId))"
    and nl: "\<forall>sq \<in> set (board gs). \<not> isLoan (occupant sq)"
    and eq: "\<forall>c t. supplyOf gs c t = INITIAL_COUNTS t"
  shows "(\<forall>c t. supplyOf gs' c t = INITIAL_COUNTS t)
       \<and> (\<forall>sq \<in> set (board gs'). \<not> isLoan (occupant sq))"
  using r
proof (cases rule: performMove_cases)
  case same
  with nl eq show ?thesis by simp
next
  case (rejected m)
  with nl eq show ?thesis by (simp add: supplyOf_def)
next
  case (applied i j legal)
  let ?n = "moved gs fromId toId i j (turn gs)"
  from findIndex_Some[OF applied(2)] have i: "i < length (board gs)" by simp
  from findIndex_Some[OF applied(3)] have j: "j < length (board gs)" by simp
  have ij: "i \<noteq> j"
  proof
    assume "i = j"
    with applied(6) legalFor_origin[OF applied(5)] show False by simp
  qed
  from np have np': "\<not> isPiece (occupant (board gs ! j))" unfolding squareOf_index[OF applied(3)] .
  from eq have le: "\<forall>c t. supplyOf gs c t \<le> INITIAL_COUNTS t" by simp
  note mv = moved_conserves[OF i j ij np' nl le, of fromId toId "turn gs"]
  have nz: "\<forall>sq \<in> set (board ?n). inZone (rank sq) \<longrightarrow> \<not> isLoan (occupant sq)"
    using mv(2) by blast
  have le': "\<forall>c t. supplyOf ?n c t \<le> INITIAL_COUNTS t" using mv(1) le by simp
  have "supplyOf gs' c t = INITIAL_COUNTS t" for c t
    using finishMove_supply[OF applied(8), of c t] applyAutoTransforms_supply[OF nz le', of c t]
      mv(1)[of c t] eq by simp
  moreover have "\<forall>sq \<in> set (board gs'). \<not> isLoan (occupant sq)"
    using finishMove_fields(1)[OF applied(8)] applyAutoTransforms_noLoans[OF mv(2)] by simp
  ultimately show ?thesis by blast
qed

lemma setupBoard_no_pieces: "\<forall>s \<in> set (setupBoard bag). \<not> isPiece (occupant s)"
  using setupBoard_occupants[of bag] by auto

lemma no_pieces_count: "\<forall>s \<in> set b. \<not> isPiece (occupant s) \<Longrightarrow> nonLoanCount b c t = 0"
  by (induction b) (simp_all add: cnt_not_piece)

lemma not_piece_not_loan: "\<not> isPiece oc \<Longrightarrow> \<not> isLoan oc"
  by (cases oc) simp_all

lemma initialGame_conserved:
  assumes "\<forall>i. 0 \<le> rnd i \<and> rnd i < 1" and "initialGame rnd = Inr g"
  shows "(\<forall>c t. supplyOf g c t = INITIAL_COUNTS t)
       \<and> (\<forall>sq \<in> set (board g). \<not> isLoan (occupant sq))"
proof -
  let ?bag = "shuffledBag rnd"
  have len: "length ?bag = 32" using shuffledBag_props[OF assms(1)] by simp
  have b: "createInitialBoard rnd = Inr (setupBoard ?bag)"
    unfolding createInitialBoard_def by (rule createInitialBoard_closed[OF len])
  with assms(2) have g: "board g = setupBoard ?bag" "stock g = (\<lambda>c. emptyStock)"
    by (auto simp: initialGame_def)
  from g setupBoard_no_pieces[of ?bag] no_pieces_count[of "setupBoard ?bag"] not_piece_not_loan
  show ?thesis by (auto simp: supplyOf_def emptyStock_def INITIAL_COUNTS_def)
qed

lemma quiet_conserved:
  "quiet g \<Longrightarrow> (\<forall>c t. supplyOf g c t = INITIAL_COUNTS t)
       \<and> (\<forall>sq \<in> set (board g). \<not> isLoan (occupant sq))"
proof (induction rule: quiet.induct)
  case (start rnd g)
  then show ?case by (rule initialGame_conserved)
next
  case (step g fromId toId g')
  from performMove_conserves[OF step(2,3)] step.IH show ?case by blast
qed

text \<open>The stock never rises above the initial counts.\<close>

lemma landPiece_stock_le:
  assumes "\<forall>c t. stock g c t \<le> INITIAL_COUNTS t"
  shows "stock (landPiece g j) c t \<le> INITIAL_COUNTS t"
proof -
  have a: "stock g c' x \<le> INITIAL_COUNTS x" for c' x using assms by blast
  have b: "stock g c' x - 1 \<le> INITIAL_COUNTS x" for c' x using a[of c' x] by linarith
  from a b show ?thesis
    by (auto simp: landPiece_def Let_def setCount_apply split: if_splits option.splits Occupant.splits)
qed

lemma landMetamorph_stock_le:
  assumes "\<forall>c t. stock g c t \<le> INITIAL_COUNTS t"
  shows "stock (landMetamorph g j) c t \<le> INITIAL_COUNTS t"
proof -
  have a: "stock g c' x \<le> INITIAL_COUNTS x" for c' x using assms by blast
  have b: "stock g c' x - 1 \<le> INITIAL_COUNTS x" for c' x using a[of c' x] by linarith
  from a b show ?thesis
    by (auto simp: landMetamorph_def Let_def setCount_apply split: if_splits option.splits Occupant.splits)
qed

lemma moved_stock_le:
  assumes "\<forall>c t. stock gs c t \<le> INITIAL_COUNTS t"
  shows "\<forall>c t. stock (moved gs fromId toId i j mc) c t \<le> INITIAL_COUNTS t"
proof -
  define n3 where "n3 = clearLandedLoan ((recordCapture gs j)\<lparr>board := relocate (board (recordCapture gs j)) i j,
                           lastMove := Some (fromId, toId, mc)\<rparr>) j"
  have "\<forall>c t. stock n3 c t \<le> INITIAL_COUNTS t" using assms by (simp add: n3_def)
  then have "\<forall>c t. stock (landPiece n3 j) c t \<le> INITIAL_COUNTS t"
    using landPiece_stock_le by blast
  then have "\<forall>c t. stock (landMetamorph (landPiece n3 j) j) c t \<le> INITIAL_COUNTS t"
    using landMetamorph_stock_le by blast
  then show ?thesis by (simp add: moved_def Let_def n3_def)
qed

lemma performMove_stock_le:
  assumes r: "performMove gs fromId toId = Inr gs'"
    and le: "\<forall>c t. stock gs c t \<le> INITIAL_COUNTS t"
  shows "\<forall>c t. stock gs' c t \<le> INITIAL_COUNTS t"
  using r
proof (cases rule: performMove_cases)
  case same
  with le show ?thesis by simp
next
  case (rejected m)
  with le show ?thesis by simp
next
  case (applied i j legal)
  from applyAutoTransforms_stock_le[OF moved_stock_le[OF le]] finishMove_fields(4)[OF applied(8)]
  show ?thesis by simp
qed

lemma applyPromotionChoice_stock_le:
  assumes r: "applyPromotionChoice gs ty = Inr gs'"
    and le: "\<forall>c t. stock gs c t \<le> INITIAL_COUNTS t"
  shows "\<forall>c t. stock gs' c t \<le> INITIAL_COUNTS t"
proof (cases "promotion gs")
  case None
  with r le show ?thesis by (simp add: applyPromotionChoice_def)
next
  case (Some p)
  obtain square color where p: "p = (square, color)" by (cases p)
  show ?thesis
  proof (cases "promotionAvailable gs color ty")
    case False
    with r le Some p show ?thesis by (simp add: applyPromotionChoice_def)
  next
    case True
    from r Some p True obtain n4 where g': "gs' = applyAutoTransforms n4" and s: "stock n4 = stock gs"
      by (auto simp: applyPromotionChoice_def Let_def split: option.splits if_splits)
    from le s have "\<forall>c t. stock n4 c t \<le> INITIAL_COUNTS t" by simp
    from applyAutoTransforms_stock_le[OF this] g' show ?thesis by simp
  qed
qed

lemma initialGame_returns:
  assumes "\<forall>i. 0 \<le> rnd i \<and> rnd i < 1"
  shows "\<exists>g. initialGame rnd = Inr g"
proof -
  have len: "length (shuffledBag rnd) = 32" using shuffledBag_props[OF assms] by simp
  have "createInitialBoard rnd = Inr (setupBoard (shuffledBag rnd))"
    unfolding createInitialBoard_def by (rule createInitialBoard_closed[OF len])
  then show ?thesis by (simp add: initialGame_def)
qed

lemma quiet_stock_le: "quiet g \<Longrightarrow> \<forall>c t. stock g c t \<le> INITIAL_COUNTS t"
proof (induction rule: quiet.induct)
  case (start rnd g)
  then show ?case by (auto simp: initialGame_def bindE_Inr emptyStock_def INITIAL_COUNTS_def)
next
  case (step g fromId toId g')
  from performMove_stock_le[OF step(2) step.IH] show ?case .
qed

subsection \<open>Conservation of the stock\<close>

lemma startState_initial: "initialGame (\<lambda>i. 0) = Inr startState"
proof -
  have "\<forall>i::nat. 0 \<le> (\<lambda>i. 0::real) i \<and> (\<lambda>i. 0::real) i < 1" by simp
  from initialGame_returns[OF this] show ?thesis by (auto simp: startState_def)
qed

text \<open>
  Claim C3, as the code has it. Write the supply of colour \<open>c\<close> and type \<open>t\<close> for
  \<^verbatim>\<open>stock[c][t]\<close> plus the number of pieces of that colour and type on the board that
  are no loans. (1) The sweep \<^verbatim>\<open>applyAutoTransforms\<close> leaves every supply as it was when
  no loan stands on ranks 3..6 and no supply is above the initial count; without the
  second condition the clamp of the return to stock drops a piece. (2) In every state
  reached from the initial game by calls of \<^verbatim>\<open>performMove\<close> onto squares that hold no
  piece (no piece is captured, no promotion choice is applied), no loan is on the board, every supply equals the initial
  count K1, Q1, R2, B2, N2, P8, and no stock entry is above it. (3) A stock table with no
  entry above the initial count stays so through the sweep, through \<^verbatim>\<open>performMove\<close> and
  through \<^verbatim>\<open>applyPromotionChoice\<close>.
\<close>

theorem stock_conservation:
  "((\<forall>sq \<in> set (board g). inZone (rank sq) \<longrightarrow> \<not> isLoan (occupant sq))
      \<and> (\<forall>c t. supplyOf g c t \<le> INITIAL_COUNTS t)
      \<longrightarrow> (\<forall>c t. supplyOf (applyAutoTransforms g) c t = supplyOf g c t))
   \<and> (quiet g \<longrightarrow>
        (\<forall>sq \<in> set (board g). \<not> isLoan (occupant sq))
        \<and> (\<forall>c t. supplyOf g c t = INITIAL_COUNTS t \<and> stock g c t \<le> INITIAL_COUNTS t))
   \<and> ((\<forall>c t. stock g c t \<le> INITIAL_COUNTS t) \<longrightarrow>
        (\<forall>c t. stock (applyAutoTransforms g) c t \<le> INITIAL_COUNTS t)
        \<and> (\<forall>fromId toId g'. performMove g fromId toId = Inr g'
              \<longrightarrow> (\<forall>c t. stock g' c t \<le> INITIAL_COUNTS t))
        \<and> (\<forall>ty g'. applyPromotionChoice g ty = Inr g'
              \<longrightarrow> (\<forall>c t. stock g' c t \<le> INITIAL_COUNTS t)))"
proof (intro conjI impI)
  assume "(\<forall>sq \<in> set (board g). inZone (rank sq) \<longrightarrow> \<not> isLoan (occupant sq))
      \<and> (\<forall>c t. supplyOf g c t \<le> INITIAL_COUNTS t)"
  then show "\<forall>c t. supplyOf (applyAutoTransforms g) c t = supplyOf g c t"
    using applyAutoTransforms_supply[of g] by blast
next
  assume "quiet g"
  then show "\<forall>sq \<in> set (board g). \<not> isLoan (occupant sq)" using quiet_conserved by blast
next
  assume q: "quiet g"
  from quiet_conserved[OF q] quiet_stock_le[OF q]
  show "\<forall>c t. supplyOf g c t = INITIAL_COUNTS t \<and> stock g c t \<le> INITIAL_COUNTS t" by blast
next
  assume "\<forall>c t. stock g c t \<le> INITIAL_COUNTS t"
  then show "\<forall>c t. stock (applyAutoTransforms g) c t \<le> INITIAL_COUNTS t"
    by (rule applyAutoTransforms_stock_le)
next
  assume "\<forall>c t. stock g c t \<le> INITIAL_COUNTS t"
  then show "\<forall>fromId toId g'. performMove g fromId toId = Inr g'
              \<longrightarrow> (\<forall>c t. stock g' c t \<le> INITIAL_COUNTS t)"
    using performMove_stock_le by blast
next
  assume "\<forall>c t. stock g c t \<le> INITIAL_COUNTS t"
  then show "\<forall>ty g'. applyPromotionChoice g ty = Inr g'
              \<longrightarrow> (\<forall>c t. stock g' c t \<le> INITIAL_COUNTS t)"
    using applyPromotionChoice_stock_le by blast
qed

theorem stock_conservation_witness:
  "quiet kingCreated
   \<and> occupant (squareOf kingCreated ''h6'') = Piece White K 1 False None
   \<and> stock kingCreated White K = 0 \<and> supplyOf kingCreated White K = 1
   \<and> supplyOf (applyAutoTransforms kingCreated) White K = 1
   \<and> stock (applyAutoTransforms kingCreated) White K \<le> 1
   \<and> stock (resultOf (performMove kingCreated ''a2'' ''a3'')) Black P \<le> 8
   \<and> stock (resultOf (applyPromotionChoice kingCreated Q)) White Q \<le> 1"
proof -
  have h: "\<forall>i::nat. 0 \<le> (\<lambda>i. 0::real) i \<and> (\<lambda>i. 0::real) i < 1" by simp
  have q0: "quiet startState" by (rule quiet.start[OF h startState_initial])
  have ids: "''h7'' \<in> set squareIds" "''h6'' \<in> set squareIds" by code_simp+
  from performMove_total[OF startState_wf ids]
  have m: "performMove startState ''h7'' ''h6'' = Inr kingCreated"
    by (auto simp: kingCreated_def resultOf_def)
  have e: "\<not> isPiece (occupant (squareOf startState ''h6''))" by code_simp
  have q: "quiet kingCreated" by (rule quiet.step[OF q0 m e])
  have o: "occupant (squareOf kingCreated ''h6'') = Piece White K 1 False None" by code_simp
  have s: "stock kingCreated White K = 0" by code_simp
  note t = stock_conservation[of kingCreated]
  from t q have c: "\<forall>c t. supplyOf kingCreated c t = INITIAL_COUNTS t"
    and l: "\<forall>c t. stock kingCreated c t \<le> INITIAL_COUNTS t"
    and n: "\<forall>sq \<in> set (board kingCreated). \<not> isLoan (occupant sq)" by blast+
  from t n c have w: "\<forall>c t. supplyOf (applyAutoTransforms kingCreated) c t = supplyOf kingCreated c t"
    by simp
  have r1: "returned (performMove kingCreated ''a2'' ''a3'')" by code_simp
  have r2: "returned (applyPromotionChoice kingCreated Q)" by code_simp
  from t l returned_resultOf[OF r1]
  have p1: "\<forall>c t. stock (resultOf (performMove kingCreated ''a2'' ''a3'')) c t \<le> INITIAL_COUNTS t"
    by metis
  from t l returned_resultOf[OF r2]
  have p2: "\<forall>c t. stock (resultOf (applyPromotionChoice kingCreated Q)) c t \<le> INITIAL_COUNTS t"
    by metis
  from t l have p3: "\<forall>c t. stock (applyAutoTransforms kingCreated) c t \<le> INITIAL_COUNTS t" by blast
  from q o s c[rule_format, of White K] w[rule_format, of White K]
    p1[rule_format, of Black P] p2[rule_format, of White Q] p3[rule_format, of White K]
  show ?thesis by (simp add: INITIAL_COUNTS_def)
qed

text \<open>
  The claim as worded (the sweep preserves the sum for every state) fails where the
  clamp bites: with a white queen that is no loan on e4 (symbol N) and the white stock
  full, the queen turns into a knight, \<^verbatim>\<open>stock.white.Q\<close> stays
  \<open>min 1 (1 + 1) = 1\<close>, and the supply of white queens falls from 2 to 1.
\<close>

theorem sweep_clamps_supply:
  "occupant (squareOf clampState ''e4'') = Piece White Q 1 False None
   \<and> blueSymbol (squareOf clampState ''e4'') = Some N
   \<and> stock clampState White Q = 1 \<and> stock clampState White N = 2
   \<and> supplyOf clampState White Q = 2
   \<and> occupant (squareOf (applyAutoTransforms clampState) ''e4'') = Piece White N 1 False None
   \<and> stock (applyAutoTransforms clampState) White Q = 1
   \<and> supplyOf (applyAutoTransforms clampState) White Q = 1"
  by code_simp

subsection \<open>The end of the protection window\<close>







text \<open>The symbols of the squares do not change.\<close>

lemma setOccupant_symbol [simp]: "blueSymbol (setOccupant b j oc ! k) = blueSymbol (b ! k)"
proof (cases "j < length b")
  case True
  then show ?thesis by (cases "k = j") (simp_all add: setOccupant_def)
next
  case False
  then have "b[j := (b ! j)\<lparr>occupant := oc\<rparr>] = b" by (simp add: list_update_beyond)
  then show ?thesis by (simp add: setOccupant_def)
qed

lemma stage_symbol [simp]:
  "blueSymbol (relocate b i j ! k) = blueSymbol (b ! k)"
  "blueSymbol (board (clearLandedLoan g j) ! k) = blueSymbol (board g ! k)"
  "blueSymbol (board (landPiece g j) ! k) = blueSymbol (board g ! k)"
  "blueSymbol (board (landMetamorph g j) ! k) = blueSymbol (board g ! k)"
  by (simp_all add: relocate_def clearLandedLoan_def landPiece_def landMetamorph_def Let_def
      split: Occupant.splits option.splits)
















subsection \<open>Checkmate\<close>




































end
